theory Spec2Isabelle
  imports Main "HOL-Library.Sublist" "HOL-Library.Multiset" "HOL-Library.Char_ord"
    "HOL-Library.List_Lexorder"
begin

section \<open>Byte strings and the functions of Go's \<open>strings\<close> package that the code calls\<close>

text \<open>
  A Go \<open>string\<close> is a sequence of bytes; it is modelled as a \<^typ>\<open>string\<close> (a list of
  \<^typ>\<open>char\<close>, one per byte), and \<open>len\<close>, indexing and slicing count bytes as Go does.
  The order on \<^typ>\<open>char\<close> is the order of the byte values, so \<open>c >= 'A' && c <= 'Z'\<close>
  is written as it stands.

  \<open>strings.ToLower\<close>, \<open>strings.ToUpper\<close> and \<open>strings.TrimSpace\<close> work on ASCII bytes
  directly: the letters \<open>A-Z\<close>/\<open>a-z\<close> change case and the six ASCII white-space bytes are
  trimmed. When the string holds a byte from \<open>0x80\<close> on, Go decodes it as UTF-8 and maps,
  or trims, by the tables of its package \<open>unicode\<close> (an invalid byte becomes \<open>U+FFFD\<close>).
  Those tables are not part of the repository: what the three functions return for such
  a string is a parameter of the model, the record \<open>unicode\<close>, and every theorem below
  holds for all values of it.
\<close>

record unicode =
  uni_ToLower :: "string \<Rightarrow> string"
  uni_ToUpper :: "string \<Rightarrow> string"
  uni_TrimSpace :: "string \<Rightarrow> string"

text \<open>The test of the three functions for a string of ASCII bytes only
  (\<open>c < utf8.RuneSelf\<close> for every byte).\<close>

definition isASCII :: "string \<Rightarrow> bool" where
  "isASCII s = list_all (\<lambda>c. (of_char c :: nat) < 128) s"

definition isUpperByte :: "char \<Rightarrow> bool" where
  "isUpperByte c = (CHR ''A'' \<le> c \<and> c \<le> CHR ''Z'')"

definition isLowerByte :: "char \<Rightarrow> bool" where
  "isLowerByte c = (CHR ''a'' \<le> c \<and> c \<le> CHR ''z'')"

definition toLowerByte :: "char \<Rightarrow> char" where
  "toLowerByte c = (if isUpperByte c then char_of (of_char c + (32::nat)) else c)"

definition toUpperByte :: "char \<Rightarrow> char" where
  "toUpperByte c = (if isLowerByte c then char_of (of_char c - (32::nat)) else c)"

definition ToLower :: "unicode \<Rightarrow> string \<Rightarrow> string" where
  "ToLower u s = (if isASCII s then map toLowerByte s else uni_ToLower u s)"

definition ToUpper :: "unicode \<Rightarrow> string \<Rightarrow> string" where
  "ToUpper u s = (if isASCII s then map toUpperByte s else uni_ToUpper u s)"

text \<open>The ASCII white space of \<open>strings.TrimSpace\<close>: tab, newline, vertical tab, form feed,
  carriage return, space.\<close>

definition isSpaceByte :: "char \<Rightarrow> bool" where
  "isSpaceByte c = ((of_char c :: nat) \<in> {9, 10, 11, 12, 13, 32})"

definition TrimSpace :: "unicode \<Rightarrow> string \<Rightarrow> string" where
  "TrimSpace u s =
     (if isASCII s then rev (dropWhile isSpaceByte (rev (dropWhile isSpaceByte s)))
      else uni_TrimSpace u s)"

text \<open>A value of the parameter for evaluating the model: the three functions as they
  are on ASCII bytes, leaving every other byte alone. The inputs at which the theorems
  below are evaluated are ASCII strings, on which the parameter is not consulted.\<close>

definition bytewiseUnicode :: unicode where
  "bytewiseUnicode =
     \<lparr>uni_ToLower = map toLowerByte, uni_ToUpper = map toUpperByte,
      uni_TrimSpace = (\<lambda>s. rev (dropWhile isSpaceByte (rev (dropWhile isSpaceByte s))))\<rparr>"

definition HasPrefix :: "string \<Rightarrow> string \<Rightarrow> bool" where
  "HasPrefix s p = (length p \<le> length s \<and> take (length p) s = p)"

definition HasSuffix :: "string \<Rightarrow> string \<Rightarrow> bool" where
  "HasSuffix s p = (length p \<le> length s \<and> drop (length s - length p) s = p)"

fun Contains :: "string \<Rightarrow> string \<Rightarrow> bool" where
  "Contains [] sub = (sub = [])"
| "Contains (c # cs) sub = (HasPrefix (c # cs) sub \<or> Contains cs sub)"

text \<open>\<open>strings.Index(s, sub)\<close>: the first byte offset at which \<open>sub\<close> occurs, \<open>None\<close>
  for Go's \<open>-1\<close>.\<close>

fun Index :: "string \<Rightarrow> string \<Rightarrow> nat option" where
  "Index [] sub = (if sub = [] then Some 0 else None)"
| "Index (c # cs) sub =
     (if HasPrefix (c # cs) sub then Some 0 else map_option Suc (Index cs sub))"

fun Join :: "string list \<Rightarrow> string \<Rightarrow> string" where
  "Join [] sep = []"
| "Join [x] sep = x"
| "Join (x # y # ys) sep = x @ sep @ Join (y # ys) sep"

text \<open>\<open>strings.Split(s, sep)\<close> for a one-byte separator: the pieces between the separators,
  always at least one piece.\<close>

fun SplitByte :: "string \<Rightarrow> char \<Rightarrow> string list" where
  "SplitByte [] sep = [[]]"
| "SplitByte (c # cs) sep =
     (if c = sep then [] # SplitByte cs sep
      else (case SplitByte cs sep of
              [] \<Rightarrow> [[c]]
            | w # ws \<Rightarrow> (c # w) # ws))"

section \<open>Data model (\<open>internal/database\<close>)\<close>

text \<open>Go's \<open>*string\<close> and \<open>*int\<close> fields are options (\<open>nil\<close> is \<open>None\<close>); a \<open>nil\<close>
  slice is the empty list; Go's \<open>int\<close> is an integer. Field names are the source's; where
  a later struct has a field whose name is already taken by an earlier record, the field
  gets a prefix or the struct's name in front (\<open>TableName\<close> and \<open>TableComment\<close> for the
  fields \<open>Name\<close> and \<open>Comment\<close> of \<open>TableMetadata\<close>).\<close>

record ColumnMetadata =
  Name :: string
  DataType :: string
  RawType :: string
  IsNullable :: bool
  IsPrimaryKey :: bool
  IsAutoIncrement :: bool
  DefaultValue :: "string option"
  EnumValues :: "string list"
  IsUnsigned :: bool
  CharMaxLength :: "int option"
  NumericPrecision :: "int option"
  NumericScale :: "int option"
  Comment :: string
  OrdinalPosition :: int

record TableMetadata =
  Schema :: string
  TableName :: string
  Columns :: "ColumnMetadata list"
  TableComment :: string

section \<open>Type mapper (\<open>internal/generator/typemapper.go\<close>)\<close>

record TypeMapping =
  GoType :: string
  ImportPath :: string
  IsSlice :: bool

definition plainType :: "string \<Rightarrow> TypeMapping" where
  "plainType g = \<lparr>GoType = g, ImportPath = [], IsSlice = False\<rparr>"

definition importedType :: "string \<Rightarrow> string \<Rightarrow> TypeMapping" where
  "importedType g i = \<lparr>GoType = g, ImportPath = i, IsSlice = False\<rparr>"

definition sliceType :: "string \<Rightarrow> TypeMapping" where
  "sliceType g = \<lparr>GoType = g, ImportPath = [], IsSlice = True\<rparr>"

text \<open>The table filled by \<open>initTypeMappings\<close>, one pair per assignment, in source order.
  The keys are pairwise distinct, so the map does not depend on the order.\<close>

definition initTypeMappings :: "(string \<times> TypeMapping) list" where
  "initTypeMappings =
   [(''int'', plainType ''int32''),
    (''integer'', plainType ''int32''),
    (''smallint'', plainType ''int16''),
    (''mediumint'', plainType ''int32''),
    (''bigint'', plainType ''int64''),
    (''tinyint'', plainType ''int8''),
    (''serial'', plainType ''int32''),
    (''bigserial'', plainType ''int64''),
    (''smallserial'', plainType ''int16''),
    (''int unsigned'', plainType ''uint32''),
    (''integer unsigned'', plainType ''uint32''),
    (''smallint unsigned'', plainType ''uint16''),
    (''mediumint unsigned'', plainType ''uint32''),
    (''bigint unsigned'', plainType ''uint64''),
    (''tinyint unsigned'', plainType ''uint8''),
    (''decimal'', plainType ''float64''),
    (''numeric'', plainType ''float64''),
    (''float'', plainType ''float32''),
    (''double'', plainType ''float64''),
    (''double precision'', plainType ''float64''),
    (''real'', plainType ''float32''),
    (''money'', plainType ''float64''),
    (''varchar'', plainType ''string''),
    (''char'', plainType ''string''),
    (''character'', plainType ''string''),
    (''character varying'', plainType ''string''),
    (''text'', plainType ''string''),
    (''longtext'', plainType ''string''),
    (''mediumtext'', plainType ''string''),
    (''tinytext'', plainType ''string''),
    (''citext'', plainType ''string''),
    (''timestamp'', importedType ''time.Time'' ''time''),
    (''timestamptz'', importedType ''time.Time'' ''time''),
    (''timestamp with time zone'', importedType ''time.Time'' ''time''),
    (''timestamp without time zone'', importedType ''time.Time'' ''time''),
    (''datetime'', importedType ''time.Time'' ''time''),
    (''date'', importedType ''time.Time'' ''time''),
    (''time'', plainType ''string''),
    (''time with time zone'', plainType ''string''),
    (''time without time zone'', plainType ''string''),
    (''year'', plainType ''int16''),
    (''interval'', plainType ''string''),
    (''bool'', plainType ''bool''),
    (''boolean'', plainType ''bool''),
    (''tinyint(1)'', plainType ''bool''),
    (''json'', importedType ''datatypes.JSON'' ''gorm.io/datatypes''),
    (''jsonb'', importedType ''datatypes.JSON'' ''gorm.io/datatypes''),
    (''uuid'', importedType ''uuid.UUID'' ''github.com/google/uuid''),
    (''bytea'', sliceType ''[]byte''),
    (''blob'', sliceType ''[]byte''),
    (''tinyblob'', sliceType ''[]byte''),
    (''mediumblob'', sliceType ''[]byte''),
    (''longblob'', sliceType ''[]byte''),
    (''binary'', sliceType ''[]byte''),
    (''varbinary'', sliceType ''[]byte''),
    (''bit'', sliceType ''[]byte''),
    (''enum'', plainType ''string''),
    (''set'', plainType ''string''),
    (''inet'', plainType ''string''),
    (''cidr'', plainType ''string''),
    (''macaddr'', plainType ''string''),
    (''macaddr8'', plainType ''string''),
    (''xml'', plainType ''string''),
    (''point'', plainType ''string''),
    (''line'', plainType ''string''),
    (''lseg'', plainType ''string''),
    (''box'', plainType ''string''),
    (''path'', plainType ''string''),
    (''polygon'', plainType ''string''),
    (''circle'', plainType ''string'')]"

text \<open>\<open>tm.typeMap\<close> of a mapper made by \<open>NewTypeMapper\<close>; \<open>m, ok := tm.typeMap[k]\<close> is
  \<open>typeMap k\<close>.\<close>

definition typeMap :: "string \<Rightarrow> TypeMapping option" where
  "typeMap = map_of initTypeMappings"

text \<open>\<open>tm.typeMap[k]\<close> without the \<open>ok\<close> result: the zero \<open>TypeMapping\<close> for a missing
  key.\<close>

definition typeMapIndex :: "string \<Rightarrow> TypeMapping" where
  "typeMapIndex k = (case typeMap k of Some m \<Rightarrow> m | None \<Rightarrow> plainType [])"

definition extractBaseType :: "unicode \<Rightarrow> string \<Rightarrow> string" where
  "extractBaseType u dbType =
     (case Index dbType ''('' of
        Some idx \<Rightarrow> TrimSpace u (take idx dbType)
      | None \<Rightarrow> dbType)"

definition applyNullable :: "string \<Rightarrow> bool \<Rightarrow> bool \<Rightarrow> string" where
  "applyNullable goType isNullable isSlice = goType"

definition GetGoType :: "unicode \<Rightarrow> string \<Rightarrow> bool \<Rightarrow> string \<times> string \<times> string" where
  "GetGoType u dbType isNullable =
     (let normalizedType = ToLower u (TrimSpace u dbType);
          baseType = extractBaseType u normalizedType;
          unsignedHit =
            (if Contains normalizedType ''unsigned''
             then typeMap (baseType @ '' unsigned'') else None)
      in case unsignedHit of
           Some mapping \<Rightarrow>
             (applyNullable (GoType mapping) isNullable (IsSlice mapping),
              ImportPath mapping, [])
         | None \<Rightarrow>
             if HasPrefix normalizedType ''tinyint(1)''
                \<and> \<not> Contains normalizedType ''unsigned''
             then (let mapping = typeMapIndex ''tinyint(1)''
                   in (applyNullable (GoType mapping) isNullable (IsSlice mapping),
                       ImportPath mapping, []))
             else (case typeMap normalizedType of
                     Some mapping \<Rightarrow>
                       (applyNullable (GoType mapping) isNullable (IsSlice mapping),
                        ImportPath mapping, [])
                   | None \<Rightarrow>
                       (case typeMap baseType of
                          Some mapping \<Rightarrow>
                            (applyNullable (GoType mapping) isNullable (IsSlice mapping),
                             ImportPath mapping, [])
                        | None \<Rightarrow>
                            (applyNullable ''interface{}'' isNullable False, [],
                             ''// unknown type: '' @ dbType))))"

definition GetGoTypeSimple :: "unicode \<Rightarrow> string \<Rightarrow> bool \<Rightarrow> string" where
  "GetGoTypeSimple u dbType isNullable = fst (GetGoType u dbType isNullable)"


text \<open>The Go slice expression \<open>s[lo:hi]\<close>; Go panics unless \<open>lo \<le> hi \<le> len(s)\<close>, and
  every use below is inside a test that establishes these bounds.\<close>

definition slice :: "string \<Rightarrow> nat \<Rightarrow> nat \<Rightarrow> string" where
  "slice s lo hi = take (hi - lo) (drop lo s)"

section \<open>Tag builder (\<open>internal/generator/tagbuilder.go\<close>)\<close>

definition cleanDefaultValue :: "unicode \<Rightarrow> string \<Rightarrow> string" where
  "cleanDefaultValue u defaultVal =
     (if Contains defaultVal ''nextval'' then []
      else let lower = ToLower u defaultVal in
        if Contains lower ''current_timestamp'' \<or> Contains lower ''now()''
           \<or> Contains lower ''current_date''
        then []
        else let defaultVal' =
                   (if HasPrefix defaultVal ''('' \<and> HasSuffix defaultVal '')''
                    then slice defaultVal 1 (length defaultVal - 1)
                    else defaultVal)
             in if ToUpper u defaultVal' = ''NULL'' then [] else defaultVal')"

text \<open>The slice \<open>parts\<close> of \<open>BuildGormTag\<close> after its last \<open>append\<close>.\<close>

definition gormParts :: "unicode \<Rightarrow> ColumnMetadata \<Rightarrow> string list" where
  "gormParts u col =
     (let parts0 = [];
          parts1 = (if IsPrimaryKey col then parts0 @ [''primaryKey''] else parts0);
          parts2 = (if IsAutoIncrement col then parts1 @ [''autoIncrement''] else parts1);
          parts3 = parts2 @ [''column:'' @ Name col];
          parts4 = parts3 @ [''type:'' @ RawType col];
          parts5 =
            (case DefaultValue col of
               None \<Rightarrow> parts4
             | Some d \<Rightarrow>
                 (let defaultVal = cleanDefaultValue u d
                  in if defaultVal \<noteq> [] then parts4 @ [''default:'' @ defaultVal]
                     else parts4));
          parts6 = (if \<not> IsNullable col \<and> \<not> IsPrimaryKey col
                    then parts5 @ [''not null''] else parts5)
      in parts6)"

definition BuildGormTag :: "unicode \<Rightarrow> ColumnMetadata \<Rightarrow> string" where
  "BuildGormTag u col = ''gorm:'' @ [CHR 0x22] @ Join (gormParts u col) '';'' @ [CHR 0x22]"

definition BuildJSONTag :: "ColumnMetadata \<Rightarrow> string" where
  "BuildJSONTag col = ''json:'' @ [CHR 0x22] @ Name col @ [CHR 0x22]"

definition BuildAllTags :: "unicode \<Rightarrow> ColumnMetadata \<Rightarrow> string" where
  "BuildAllTags u col = Join [BuildGormTag u col, BuildJSONTag col] '' ''"

text \<open>The attribute list as the specification words it: primary-key marker (if set),
  auto-increment marker (if set), column-name attribute (always), declared-type attribute
  (always), default-value attribute (if a cleaned default exists), not-null marker (only if
  the column is not nullable and not a primary key).\<close>

definition spec_gormAttributes :: "unicode \<Rightarrow> ColumnMetadata \<Rightarrow> string list" where
  "spec_gormAttributes u col =
     (if IsPrimaryKey col then [''primaryKey''] else []) @
     (if IsAutoIncrement col then [''autoIncrement''] else []) @
     [''column:'' @ Name col] @
     [''type:'' @ RawType col] @
     (case DefaultValue col of
        None \<Rightarrow> []
      | Some d \<Rightarrow>
          if cleanDefaultValue u d = [] then [] else [''default:'' @ cleanDefaultValue u d]) @
     (if \<not> IsNullable col \<and> \<not> IsPrimaryKey col then [''not null''] else [])"

text \<open>What a reader of the tag finds in it: the text between \<open>gorm:"\<close> and the closing
  quote, split at the semicolons.\<close>

definition tagAttributes :: "string \<Rightarrow> string list" where
  "tagAttributes tag = SplitByte (take (length tag - 7) (drop 6 tag)) CHR '';''"

text \<open>The zero \<open>ColumnMetadata\<close> of Go, from which the tests build their columns by naming
  some fields.\<close>

definition zeroColumn :: ColumnMetadata where
  "zeroColumn =
     \<lparr>Name = [], DataType = [], RawType = [], IsNullable = False, IsPrimaryKey = False,
      IsAutoIncrement = False, DefaultValue = None, EnumValues = [], IsUnsigned = False,
      CharMaxLength = None, NumericPrecision = None, NumericScale = None, Comment = [],
      OrdinalPosition = 0\<rparr>"

definition FormatEnumComment :: "string list \<Rightarrow> string" where
  "FormatEnumComment values =
     (if length values = 0 then []
      else ''// enum('' @ Join (map (\<lambda>v. [CHR 0x27] @ v @ [CHR 0x27]) values) '','' @ '')'')"

section \<open>Naming (\<open>internal/generator/naming.go\<close>)\<close>

definition irregulars :: "(string \<times> string) list" where
  "irregulars =
     [(''people'', ''person''), (''children'', ''child''), (''men'', ''man''),
      (''women'', ''woman''), (''teeth'', ''tooth''), (''feet'', ''foot''),
      (''mice'', ''mouse''), (''geese'', ''goose'')]"

definition singularize :: "string \<Rightarrow> string" where
  "singularize word =
     (if word = [] then word
      else case map_of irregulars word of
        Some singular \<Rightarrow> singular
      | None \<Rightarrow>
         (let n = length word in
          if n > 3 \<and> slice word (n - 3) n = ''ies'' then slice word 0 (n - 3) @ ''y''
          else if n > 3 \<and> slice word (n - 3) n = ''ves'' then slice word 0 (n - 3) @ ''f''
          else if n > 3 \<and> slice word (n - 3) n = ''oes'' then slice word 0 (n - 2)
          else if n > 2 \<and> slice word (n - 2) n = ''es'' then
            (let base = slice word 0 (n - 2) in
             if length base > 0
                \<and> (last base = CHR ''s'' \<or> last base = CHR ''x'' \<or> last base = CHR ''z'')
             then base
             else if length base > 0 \<and> length base > 1
                \<and> (slice base (length base - 2) (length base) = ''ch''
                     \<or> slice base (length base - 2) (length base) = ''sh'')
             then base
             else slice word 0 (n - 1))
          else if n > 2 \<and> slice word (n - 2) n = ''ss'' then word
          else if n > 2 \<and> slice word (n - 1) n = ''s'' then slice word 0 (n - 1)
          else word))"


text \<open>The entries of the map literal \<open>acronyms\<close> in \<open>handleAcronyms\<close>, in the order in
  which the source lists them.\<close>

definition acronyms :: "(string \<times> string) list" where
  "acronyms =
     [(''Id'', ''ID''), (''Url'', ''URL''), (''Api'', ''API''), (''Http'', ''HTTP''),
      (''Json'', ''JSON''), (''Xml'', ''XML''), (''Sql'', ''SQL''), (''Uuid'', ''UUID''),
      (''Ip'', ''IP''), (''Html'', ''HTML''), (''Css'', ''CSS''), (''Db'', ''DB'')]"

text \<open>
  The loop of \<open>replaceAcronym\<close>, with the loop variables \<open>i\<close> and \<open>result\<close> as
  arguments. After a replacement the source adds \<open>len(replacement) - 1\<close> to \<open>i\<close> and the
  loop header adds one more, so the next index is \<open>i + len(replacement)\<close>. The bound
  \<open>len(result) - len(pattern)\<close> is a signed integer. For an empty pattern the Go loop never
  ends; the result is then \<open>None\<close>.
\<close>

partial_function (option) replaceAcronym_loop ::
  "string \<Rightarrow> string \<Rightarrow> nat \<Rightarrow> string \<Rightarrow> string option" where
  "replaceAcronym_loop pattern replacement i result =
     (if int i \<le> int (length result) - int (length pattern) then
        (if slice result i (i + length pattern) = pattern then
           (if i + length pattern \<ge> length result
               \<or> isUpperByte (result ! (i + length pattern))
            then replaceAcronym_loop pattern replacement (i + length replacement)
                   (slice result 0 i @ replacement
                      @ slice result (i + length pattern) (length result))
            else replaceAcronym_loop pattern replacement (i + 1) result)
         else replaceAcronym_loop pattern replacement (i + 1) result)
      else Some result)"

declare replaceAcronym_loop.simps [code]

definition replaceAcronym :: "string \<Rightarrow> string \<Rightarrow> string \<Rightarrow> string option" where
  "replaceAcronym s pattern replacement = replaceAcronym_loop pattern replacement 0 s"

text \<open>
  \<open>handleAcronyms\<close> ranges over a Go map, and Go leaves the order of that iteration open.
  \<open>handleAcronyms_range\<close> takes the order in which the entries come as its first
  argument.
\<close>

fun handleAcronyms_range :: "(string \<times> string) list \<Rightarrow> string \<Rightarrow> string option" where
  "handleAcronyms_range [] result = Some result"
| "handleAcronyms_range ((pattern, replacement) # rest) result =
     (case replaceAcronym result pattern replacement of
        None \<Rightarrow> None
      | Some result' \<Rightarrow> handleAcronyms_range rest result')"

text \<open>
  \<open>handleAcronyms\<close> with the entries in source order. The loops end for every entry of
  the table and every order of the entries gives this same result (lemmas
  \<open>handleAcronyms_range_total\<close> and \<open>handleAcronyms_range_order\<close> below), so this is the
  value of the Go function.
\<close>

definition handleAcronyms :: "string \<Rightarrow> string" where
  "handleAcronyms s = (case handleAcronyms_range acronyms s of Some r \<Rightarrow> r | None \<Rightarrow> s)"

text \<open>
  Modelled from the spec: the conversion of a snake-style identifier into the
  exported-identifier form is \<open>strcase.ToCamel\<close> of the third-party package
  \<open>github.com/iancoleman/strcase\<close>, whose source is not part of the repository. The model
  is that function's byte loop (release 0.3.0, no acronym configured, as in this
  repository): the string is trimmed; a letter is upper-cased at the start and after a
  separator or digit; an upper-case letter that follows an upper-case letter is
  lower-cased; letters and digits are kept and every other byte is dropped, the bytes
  \<open>_\<close>, space, \<open>-\<close> and \<open>.\<close> being the separators.
\<close>

definition isDigitByte :: "char \<Rightarrow> bool" where
  "isDigitByte c = (CHR ''0'' \<le> c \<and> c \<le> CHR ''9'')"

fun toCamelInitCase_loop :: "bool \<Rightarrow> bool \<Rightarrow> nat \<Rightarrow> string \<Rightarrow> string" where
  "toCamelInitCase_loop capNext prevIsCap i [] = []"
| "toCamelInitCase_loop capNext prevIsCap i (v # rest) =
     (let vIsCap = isUpperByte v;
          vIsLow = isLowerByte v;
          v' = (if capNext then (if vIsLow then toUpperByte v else v)
                else if i = 0 then (if vIsCap then toLowerByte v else v)
                else if prevIsCap \<and> vIsCap then toLowerByte v
                else v)
      in if vIsCap \<or> vIsLow then v' # toCamelInitCase_loop False vIsCap (i + 1) rest
         else if isDigitByte v' then v' # toCamelInitCase_loop True vIsCap (i + 1) rest
         else toCamelInitCase_loop
                (v' = CHR ''_'' \<or> v' = CHR '' '' \<or> v' = CHR ''-'' \<or> v' = CHR ''.'')
                vIsCap (i + 1) rest)"

definition ToCamel :: "unicode \<Rightarrow> string \<Rightarrow> string" where
  "ToCamel u s =
     (let s' = TrimSpace u s in if s' = [] then s' else toCamelInitCase_loop True False 0 s')"

definition ToGoFieldName_range ::
  "unicode \<Rightarrow> (string \<times> string) list \<Rightarrow> string \<Rightarrow> string option" where
  "ToGoFieldName_range u order columnName = handleAcronyms_range order (ToCamel u columnName)"

definition ToGoFieldName :: "unicode \<Rightarrow> string \<Rightarrow> string" where
  "ToGoFieldName u columnName = handleAcronyms (ToCamel u columnName)"

definition ToGoStructName :: "unicode \<Rightarrow> string \<Rightarrow> string" where
  "ToGoStructName u tableName = ToCamel u (singularize tableName)"

text \<open>\<open>ToPascalCase\<close> of \<open>tagbuilder.go\<close>, with its own acronym map (looked up, not
  ranged over).\<close>

definition pascalAcronyms :: "(string \<times> string) list" where
  "pascalAcronyms =
     [(''id'', ''ID''), (''url'', ''URL''), (''api'', ''API''), (''http'', ''HTTP''),
      (''json'', ''JSON''), (''xml'', ''XML''), (''sql'', ''SQL''), (''uuid'', ''UUID''),
      (''ip'', ''IP''), (''html'', ''HTML''), (''css'', ''CSS'')]"

definition pascalWord :: "unicode \<Rightarrow> string \<Rightarrow> string" where
  "pascalWord u word =
     (if word = [] then []
      else case map_of pascalAcronyms (ToLower u word) of
        Some acronym \<Rightarrow> acronym
      | None \<Rightarrow> ToUpper u (slice word 0 1)
                 @ (if length word > 1 then ToLower u (slice word 1 (length word)) else []))"

definition ToPascalCase :: "unicode \<Rightarrow> string \<Rightarrow> string" where
  "ToPascalCase u s = concat (map (pascalWord u) (SplitByte s CHR ''_''))"

section \<open>Enum values (\<open>typemapper.go\<close>, \<open>mysql_introspector.go\<close>)\<close>

text \<open>
  The two regular expressions of \<open>ParseEnumValues\<close>, as the matchers that Go's \<open>regexp\<close>
  package runs for them. Go returns the leftmost match and, among the matches that start
  there, the one a backtracking matcher finds first: a greedy repetition takes as much as
  it can and gives back one item at a time. \<open>\s\<close> is one of tab, newline, form feed,
  carriage return and space; \<open>.\<close> is any byte but newline (a rune in Go; the items next to
  it in these expressions are ASCII, so the match ends at the same bytes).
\<close>

definition isReSpace :: "char \<Rightarrow> bool" where
  "isReSpace c = ((of_char c :: nat) \<in> {9, 10, 12, 13, 32})"

definition isReDot :: "char \<Rightarrow> bool" where
  "isReDot c = (c \<noteq> CHR 0x0A)"

text \<open>The end \<open>\s*\)\<close> of the first expression: after a run of white space, which cannot
  contain the parenthesis, a closing parenthesis.\<close>

definition reCloses :: "string \<Rightarrow> bool" where
  "reCloses r = (case dropWhile isReSpace r of [] \<Rightarrow> False | c # rest \<Rightarrow> c = CHR '')'')"

text \<open>The group \<open>(.+)\<close> followed by \<open>\s*\)\<close>, tried on \<open>r\<close> with \<open>n\<close> bytes for the
  group, then \<open>n - 1\<close>, down to one byte.\<close>

fun reGroup :: "string \<Rightarrow> nat \<Rightarrow> string option" where
  "reGroup r 0 = None"
| "reGroup r (Suc n) =
     (if reCloses (drop (Suc n) r) then Some (take (Suc n) r) else reGroup r n)"

text \<open>The part \<open>\s*(.+)\s*\)\<close> after the opening parenthesis, tried with \<open>k\<close> bytes of
  white space, then \<open>k - 1\<close>, down to none; each time the group starts with the longest
  run of bytes other than newline.\<close>

fun reAfterParen :: "string \<Rightarrow> nat \<Rightarrow> string option" where
  "reAfterParen r 0 = reGroup r (length (takeWhile isReDot r))"
| "reAfterParen r (Suc k) =
     (case reGroup (drop (Suc k) r) (length (takeWhile isReDot (drop (Suc k) r))) of
        Some v \<Rightarrow> Some v
      | None \<Rightarrow> reAfterParen r k)"

text \<open>A match of \<open>enum\s*\(\s*(.+)\s*\)\<close> that starts at the first byte of \<open>s\<close>: its
  group, if there is one.\<close>

definition reEnumAt :: "string \<Rightarrow> string option" where
  "reEnumAt s =
     (if HasPrefix s ''enum'' then
        (case dropWhile isReSpace (drop 4 s) of
           [] \<Rightarrow> None
         | c # r \<Rightarrow>
             if c = CHR ''('' then reAfterParen r (length (takeWhile isReSpace r))
             else None)
      else None)"

text \<open>\<open>re.FindStringSubmatch(s)\<close> for that expression: \<open>None\<close> when nothing matches (the
  result then has length \<open>0\<close>), else the text of group 1 (the result has length \<open>2\<close>).\<close>

fun FindEnumSubmatch :: "string \<Rightarrow> string option" where
  "FindEnumSubmatch [] = None"
| "FindEnumSubmatch (c # cs) =
     (case reEnumAt (c # cs) of
        Some v \<Rightarrow> Some v
      | None \<Rightarrow> FindEnumSubmatch cs)"

text \<open>
  \<open>valueRe.FindAllStringSubmatch(s, -1)\<close> for \<open>'([^']*)'\<close>, reduced to the group of each
  match: from left to right, the text between a quote and the next quote; the search goes
  on after the closing quote, and an opening quote with no closing quote matches nothing.
  The first argument is \<open>None\<close> outside a quoted value and holds the bytes read so far
  inside one.
\<close>

fun FindAllQuoted :: "string option \<Rightarrow> string \<Rightarrow> string list" where
  "FindAllQuoted None [] = []"
| "FindAllQuoted (Some acc) [] = []"
| "FindAllQuoted None (c # cs) =
     (if c = CHR 0x27 then FindAllQuoted (Some []) cs else FindAllQuoted None cs)"
| "FindAllQuoted (Some acc) (c # cs) =
     (if c = CHR 0x27 then acc # FindAllQuoted None cs
      else FindAllQuoted (Some (acc @ [c])) cs)"

definition ParseEnumValues :: "unicode \<Rightarrow> string \<Rightarrow> string list" where
  "ParseEnumValues u columnType =
     (case FindEnumSubmatch (ToLower u columnType) of
        None \<Rightarrow> []
      | Some valuesPart \<Rightarrow> FindAllQuoted None valuesPart)"

text \<open>The copy of the function in the package \<open>database\<close>.\<close>

definition parseEnumValues :: "unicode \<Rightarrow> string \<Rightarrow> string list" where
  "parseEnumValues u columnType =
     (case FindEnumSubmatch (ToLower u columnType) of
        None \<Rightarrow> []
      | Some valuesPart \<Rightarrow> FindAllQuoted None valuesPart)"

text \<open>A row of the column query of \<open>MySQLIntrospector.GetColumns\<close> as \<open>rows.Scan\<close> delivers
  it; a \<open>sql.NullString\<close> or \<open>sql.NullInt64\<close> is an option (\<open>None\<close> when not valid).\<close>

record mysqlRow =
  row_columnName :: string
  row_dataType :: string
  row_columnType :: string
  row_isNullable :: string
  row_columnKey :: "string option"
  row_extra :: "string option"
  row_columnDefault :: "string option"
  row_charMaxLength :: "int option"
  row_numericPrecision :: "int option"
  row_numericScale :: "int option"
  row_columnComment :: "string option"
  row_ordinalPosition :: int

text \<open>The body of the loop of \<open>GetColumns\<close>: the column made from one row.\<close>

definition mysqlColumn :: "unicode \<Rightarrow> mysqlRow \<Rightarrow> ColumnMetadata" where
  "mysqlColumn u r =
     (let col = \<lparr>Name = row_columnName r, DataType = row_dataType r,
                  RawType = row_columnType r,
                  IsNullable = (row_isNullable r = ''YES''),
                  IsPrimaryKey = (row_columnKey r = Some ''PRI''),
                  IsAutoIncrement =
                    (case row_extra r of None \<Rightarrow> False
                     | Some e \<Rightarrow> Contains e ''auto_increment''),
                  DefaultValue = None, EnumValues = [], IsUnsigned = False,
                  CharMaxLength = None, NumericPrecision = None, NumericScale = None,
                  Comment = [], OrdinalPosition = row_ordinalPosition r\<rparr>;
          col1 = col\<lparr>DefaultValue := row_columnDefault r\<rparr>;
          col2 = col1\<lparr>CharMaxLength := row_charMaxLength r\<rparr>;
          col3 = col2\<lparr>NumericPrecision := row_numericPrecision r\<rparr>;
          col4 = col3\<lparr>NumericScale := row_numericScale r\<rparr>;
          col5 = (case row_columnComment r of None \<Rightarrow> col4
                  | Some c \<Rightarrow> col4\<lparr>Comment := c\<rparr>);
          col6 = col5\<lparr>IsUnsigned := Contains (ToLower u (row_columnType r)) ''unsigned''\<rparr>
      in if ToLower u (row_dataType r) = ''enum''
         then col6\<lparr>EnumValues := parseEnumValues u (row_columnType r)\<rparr>
         else col6)"

definition sampleEnumRow :: mysqlRow where
  "sampleEnumRow =
     \<lparr>row_columnName = ''status'', row_dataType = ''enum'',
      row_columnType = ''enum('' @ [CHR 0x27] @ ''Active'' @ [CHR 0x27] @ '',''
                         @ [CHR 0x27] @ ''INACTIVE'' @ [CHR 0x27] @ '')'',
      row_isNullable = ''NO'', row_columnKey = None, row_extra = None,
      row_columnDefault = Some ''Active'', row_charMaxLength = Some 8,
      row_numericPrecision = None, row_numericScale = None,
      row_columnComment = None, row_ordinalPosition = 3\<rparr>"

section \<open>Struct fields and imports (\<open>tagbuilder.go\<close>, \<open>imports.go\<close>, \<open>template.go\<close>)\<close>

record StructField =
  sf_Name :: string
  sf_Type :: string
  sf_Tags :: string
  sf_Comment :: string
  sf_ImportPath :: string

definition BuildStructField :: "unicode \<Rightarrow> ColumnMetadata \<Rightarrow> StructField" where
  "BuildStructField u col =
     (case GetGoType u (RawType col) (IsNullable col) of
        (goType, importPath, typeComment) \<Rightarrow>
          (let field = \<lparr>sf_Name = ToPascalCase u (Name col), sf_Type = goType,
                         sf_Tags = BuildAllTags u col, sf_Comment = [],
                         sf_ImportPath = importPath\<rparr>
           in if length (EnumValues col) > 0
                then field\<lparr>sf_Comment := FormatEnumComment (EnumValues col)\<rparr>
              else if typeComment \<noteq> [] then field\<lparr>sf_Comment := typeComment\<rparr>
              else if Comment col \<noteq> [] then field\<lparr>sf_Comment := ''// '' @ Comment col\<rparr>
              else field))"

text \<open>An \<open>ImportManager\<close> holds a \<open>map[string]bool\<close> in which every stored value is
  \<open>true\<close>: the set of its keys.\<close>

type_synonym ImportManager = "string set"

definition im_Add :: "ImportManager \<Rightarrow> string \<Rightarrow> ImportManager" where
  "im_Add im importPath = (if importPath \<noteq> [] then insert importPath im else im)"

definition im_Has :: "ImportManager \<Rightarrow> string \<Rightarrow> bool" where
  "im_Has im importPath = (importPath \<in> im)"

definition im_GetAll :: "ImportManager \<Rightarrow> string list" where
  "im_GetAll im = sorted_list_of_set im"

definition stdLibPrefixes :: "string list" where
  "stdLibPrefixes =
     [''archive/'', ''bufio'', ''bytes'', ''compress/'', ''container/'', ''context'',
      ''crypto/'', ''database/'', ''debug/'', ''embed'', ''encoding/'', ''errors'',
      ''expvar'', ''flag'', ''fmt'', ''go/'', ''hash/'', ''html/'', ''image/'', ''index/'',
      ''io'', ''log'', ''math'', ''mime/'', ''net/'', ''os'', ''path'', ''reflect'',
      ''regexp'', ''runtime'', ''sort'', ''strconv'', ''strings'', ''sync'', ''syscall'',
      ''testing'', ''text/'', ''time'', ''unicode'', ''unsafe'']"

definition isStdLib :: "string \<Rightarrow> bool" where
  "isStdLib path =
     list_ex (\<lambda>prefix. path = prefix \<or> HasPrefix path (prefix @ ''/'') \<or> HasPrefix path prefix)
       stdLibPrefixes"

definition importLine :: "string \<Rightarrow> string" where
  "importLine path = [CHR 0x09, CHR 0x22] @ path @ [CHR 0x22, CHR 0x0A]"

definition GenerateImportBlock :: "ImportManager \<Rightarrow> string" where
  "GenerateImportBlock im =
     (if im = {} then []
      else let paths = im_GetAll im;
               stdLib = filter isStdLib paths;
               thirdParty = filter (\<lambda>p. \<not> isStdLib p) paths
           in ''import ('' @ [CHR 0x0A]
              @ concat (map importLine stdLib)
              @ (if length stdLib > 0 \<and> length thirdParty > 0 then [CHR 0x0A] else [])
              @ concat (map importLine thirdParty)
              @ '')'')"

definition wk_Time :: string where "wk_Time = ''time''"
definition wk_Datatypes :: string where "wk_Datatypes = ''gorm.io/datatypes''"
definition wk_UUID :: string where "wk_UUID = ''github.com/google/uuid''"

definition detectField :: "ImportManager \<Rightarrow> StructField \<Rightarrow> ImportManager" where
  "detectField im field =
     (let goType = sf_Type field;
          im1 = (if goType = ''time.Time'' \<or> goType = ''*time.Time''
                 then im_Add im wk_Time else im);
          im2 = (if goType = ''datatypes.JSON'' \<or> goType = ''*datatypes.JSON''
                 then im_Add im1 wk_Datatypes else im1);
          im3 = (if goType = ''uuid.UUID'' \<or> goType = ''*uuid.UUID''
                 then im_Add im2 wk_UUID else im2)
      in if sf_ImportPath field \<noteq> [] then im_Add im3 (sf_ImportPath field) else im3)"

definition DetectRequiredImports :: "StructField list \<Rightarrow> ImportManager" where
  "DetectRequiredImports structFields = foldl detectField {} structFields"

record TemplateData =
  td_PackageName :: string
  td_Imports :: string
  td_StructName :: string
  td_TableName :: string
  td_Fields :: "StructField list"
  td_HasTime :: bool
  td_HasJSON :: bool
  td_HasUUID :: bool

section \<open>Errors, the outside world, and the generator (\<open>generator.go\<close>)\<close>

text \<open>
  A Go \<open>error\<close> is either made by \<open>errors.New\<close> (or comes from a library) with a message,
  or wraps another error: \<open>fmt.Errorf("<context>: %w", err)\<close> is \<open>Errorf context err\<close>.
  A function that returns \<open>(value, error)\<close> returns a pair whose second component is
  \<open>None\<close> for \<open>nil\<close>; a byte slice that may be \<open>nil\<close> is an option.
\<close>

datatype error = New string | Errorf string error

record DBConfig =
  Host :: string
  Port :: int
  User :: string
  Password :: string
  DBName :: string
  Driver :: string

text \<open>
  What the generator and the application do to the outside world, in the order in which
  they do it: the calls of the \<open>DBIntrospector\<close> interface (each one a round trip to the
  database, but for \<open>Close\<close>), the file-system calls and the saving of the configuration.
\<close>

datatype event =
    CallConnect DBConfig
  | CallClose
  | CallGetTables
  | CallGetColumns string
  | CallGetTableMetadata string
  | CallGetSchemas
  | CallMkdirAll string
  | CallWriteFile string string
  | CallSaveConfig DBConfig

text \<open>
  The answers of the outside world: of the database behind the \<open>DBIntrospector\<close>, of
  \<open>text/template\<close>, \<open>go/format\<close>, \<open>os\<close>, \<open>path/filepath\<close> and of
  \<open>strcase.ToSnake\<close>, together with the Unicode part of the package \<open>strings\<close>. They are
  parameters of the model; every theorem below holds for all of them. A \<open>world\<close> holds
  the answers for the work on one table: \<open>Generate\<close>, \<open>GenerateToFile\<close> and the methods of
  the session that work on one table make each call of the outside world at most once,
  so one \<open>world\<close> covers every way such a run can go. The outside world may change as
  time passes: a directory that could be made for one table may not be there for the
  next. \<open>GenerateAll\<close> therefore takes a \<open>world\<close> for the list of tables and one for every
  table of its loop, and the reachable states below take a world of their own for every
  step.
\<close>

record world =
  db_Connect :: "DBConfig \<Rightarrow> error option"
  db_Close :: "error option"
  db_GetTables :: "error + string list"
  db_GetColumns :: "string \<Rightarrow> error + ColumnMetadata list"
  db_GetTableMetadata :: "string \<Rightarrow> error + TableMetadata"
  db_GetSchemas :: "error + string list"
  template_Parse :: "error option"
  template_Execute :: "TemplateData \<Rightarrow> error + string"
  format_Source :: "string \<Rightarrow> error + string"
  os_MkdirAll :: "string \<Rightarrow> error option"
  os_WriteFile :: "string \<Rightarrow> string \<Rightarrow> error option"
  filepath_Join :: "string \<Rightarrow> string \<Rightarrow> string"
  filepath_Dir :: "string \<Rightarrow> string"
  strcase_ToSnake :: "string \<Rightarrow> string"
  go_unicode :: unicode

text \<open>A \<open>Generator\<close>: its type mapper, tag builder and naming converter have no state, and
  its introspector is the one the world answers for; the package name remains.\<close>

record Generator =
  packageName :: string

definition NewGenerator :: Generator where
  "NewGenerator = \<lparr>packageName = ''models''\<rparr>"

definition ToFileName :: "world \<Rightarrow> string \<Rightarrow> string" where
  "ToFileName w tableName = strcase_ToSnake w tableName @ ''.go''"

definition buildFields :: "unicode \<Rightarrow> TableMetadata \<Rightarrow> StructField list" where
  "buildFields u meta =
     map (\<lambda>col. (BuildStructField u col)\<lparr>sf_Name := ToGoFieldName u (Name col)\<rparr>)
       (Columns meta)"

definition buildTemplateData ::
  "unicode \<Rightarrow> Generator \<Rightarrow> string \<Rightarrow> TableMetadata \<Rightarrow> TemplateData" where
  "buildTemplateData u g tableName meta =
     (let structFields = buildFields u meta;
          importMgr = DetectRequiredImports structFields
      in \<lparr>td_PackageName = packageName g,
          td_Imports = GenerateImportBlock importMgr,
          td_StructName = ToGoStructName u tableName,
          td_TableName = tableName,
          td_Fields = structFields,
          td_HasTime = im_Has importMgr wk_Time,
          td_HasJSON = im_Has importMgr wk_Datatypes,
          td_HasUUID = im_Has importMgr wk_UUID\<rparr>)"

definition Generate ::
  "world \<Rightarrow> Generator \<Rightarrow> string \<Rightarrow> (string option \<times> error option) \<times> event list" where
  "Generate w g tableName =
     (case db_GetTableMetadata w tableName of
        Inl err \<Rightarrow>
          ((None, Some (Errorf ''failed to get table metadata'' err)),
           [CallGetTableMetadata tableName])
      | Inr meta \<Rightarrow>
          (let templateData = buildTemplateData (go_unicode w) g tableName meta in
           case template_Parse w of
             Some err \<Rightarrow>
               ((None, Some (Errorf ''failed to parse template'' err)),
                [CallGetTableMetadata tableName])
           | None \<Rightarrow>
               (case template_Execute w templateData of
                  Inl err \<Rightarrow>
                    ((None, Some (Errorf ''failed to execute template'' err)),
                     [CallGetTableMetadata tableName])
                | Inr buf \<Rightarrow>
                    (case format_Source w buf of
                       Inl err \<Rightarrow>
                         ((Some buf,
                           Some (Errorf ''go/format failed (returning unformatted)'' err)),
                          [CallGetTableMetadata tableName])
                     | Inr formatted \<Rightarrow>
                         ((Some formatted, None), [CallGetTableMetadata tableName])))))"

definition GenerateString ::
  "world \<Rightarrow> Generator \<Rightarrow> string \<Rightarrow> (string \<times> error option) \<times> event list" where
  "GenerateString w g tableName =
     (case Generate w g tableName of
        ((bytes, Some err), evs) \<Rightarrow> (([], Some err), evs)
      | ((bytes, None), evs) \<Rightarrow> ((case bytes of None \<Rightarrow> [] | Some b \<Rightarrow> b, None), evs))"

definition GenerateToFile ::
  "world \<Rightarrow> Generator \<Rightarrow> string \<Rightarrow> string \<Rightarrow> (string \<times> error option) \<times> event list" where
  "GenerateToFile w g tableName outputDir =
     (case Generate w g tableName of
        ((content, Some err), evs) \<Rightarrow> (([], Some err), evs)
      | ((content, None), evs) \<Rightarrow>
          (case os_MkdirAll w outputDir of
             Some err \<Rightarrow>
               (([], Some (Errorf ''failed to create output directory'' err)),
                evs @ [CallMkdirAll outputDir])
           | None \<Rightarrow>
               (let fileName = ToFileName w tableName;
                    filePath = filepath_Join w outputDir fileName;
                    bytes = (case content of None \<Rightarrow> [] | Some b \<Rightarrow> b)
                in case os_WriteFile w filePath bytes of
                     Some err \<Rightarrow>
                       (([], Some (Errorf ''failed to write file'' err)),
                        evs @ [CallMkdirAll outputDir, CallWriteFile filePath bytes])
                   | None \<Rightarrow>
                       ((filePath, None),
                        evs @ [CallMkdirAll outputDir, CallWriteFile filePath bytes]))))"

text \<open>The bytes that \<open>GenerateToFile\<close> hands to \<open>os.WriteFile\<close> for a table: the content
  that \<open>Generate\<close> returns (a \<open>nil\<close> slice is written as no bytes).\<close>

definition generatedBytes :: "world \<Rightarrow> Generator \<Rightarrow> string \<Rightarrow> string" where
  "generatedBytes w g tableName =
     (case fst (fst (Generate w g tableName)) of None \<Rightarrow> [] | Some b \<Rightarrow> b)"

text \<open>The calls that writing one table takes when nothing fails: the metadata is read,
  the directory is made, the file is written under the joined path.\<close>

definition writeTrace :: "world \<Rightarrow> Generator \<Rightarrow> string \<Rightarrow> string \<Rightarrow> event list" where
  "writeTrace w g tableName outputDir =
     [CallGetTableMetadata tableName, CallMkdirAll outputDir,
      CallWriteFile (filepath_Join w outputDir (ToFileName w tableName))
        (generatedBytes w g tableName)]"

text \<open>The loop of \<open>GenerateAll\<close> over the remaining tables, with the slice \<open>filePaths\<close>
  built so far. The table at the head is the \<open>k\<close>-th of the whole list (counted from
  \<open>0\<close>), and \<open>ws k\<close> is the outside world at the time of its turn.\<close>

fun GenerateAll_loop ::
  "(nat \<Rightarrow> world) \<Rightarrow> Generator \<Rightarrow> string \<Rightarrow> nat \<Rightarrow> string list \<Rightarrow> string list
     \<Rightarrow> (string list \<times> error option) \<times> event list" where
  "GenerateAll_loop ws g outputDir k [] filePaths = ((filePaths, None), [])"
| "GenerateAll_loop ws g outputDir k (table # rest) filePaths =
     (case GenerateToFile (ws k) g table outputDir of
        ((filePath, Some err), evs) \<Rightarrow>
          ((filePaths, Some (Errorf (''failed to generate '' @ table) err)), evs)
      | ((filePath, None), evs) \<Rightarrow>
          (case GenerateAll_loop ws g outputDir (Suc k) rest (filePaths @ [filePath]) of
             (r, evs') \<Rightarrow> (r, evs @ evs')))"

text \<open>\<open>GenerateAll\<close>: \<open>w\<close> answers \<open>GetTables\<close>, \<open>ws k\<close> answers the calls made for the
  \<open>k\<close>-th table.\<close>

definition GenerateAll ::
  "world \<Rightarrow> (nat \<Rightarrow> world) \<Rightarrow> Generator \<Rightarrow> string
     \<Rightarrow> (string list \<times> error option) \<times> event list" where
  "GenerateAll w ws g outputDir =
     (case db_GetTables w of
        Inl err \<Rightarrow> (([], Some (Errorf ''failed to get tables'' err)), [CallGetTables])
      | Inr tables \<Rightarrow>
          (case GenerateAll_loop ws g outputDir 0 tables [] of
             (r, evs) \<Rightarrow> (r, CallGetTables # evs)))"

text \<open>The table names of the \<open>GetTableMetadata\<close> calls in a trace, in the order of the
  calls: the tables whose generation was attempted.\<close>

fun tablesAttempted :: "event list \<Rightarrow> string list" where
  "tablesAttempted [] = []"
| "tablesAttempted (CallGetTableMetadata t # es) = t # tablesAttempted es"
| "tablesAttempted (e # es) = tablesAttempted es"

section \<open>The application session (\<open>app.go\<close>, \<open>internal/database/connection.go\<close>)\<close>

text \<open>The two implementations of \<open>DBIntrospector\<close>; the PostgreSQL one carries its
  current schema.\<close>

datatype Introspector =
    MySQLIntrospector DBConfig
  | PostgresIntrospector DBConfig string

definition NewIntrospector :: "DBConfig \<Rightarrow> error + Introspector" where
  "NewIntrospector cfg =
     (if Driver cfg = ''mysql'' then Inr (MySQLIntrospector cfg)
      else if Driver cfg = ''postgres'' \<or> Driver cfg = ''postgresql''
        then Inr (PostgresIntrospector cfg ''public'')
      else Inl (New (''unsupported database driver: '' @ Driver cfg)))"

text \<open>
  The fields of \<open>App\<close> that hold the session; \<open>nil\<close> is \<open>None\<close>. Every method takes the
  lock \<open>mu\<close> for its whole body, so a method is one step on this state. The generator's
  introspector is the object in the field \<open>introspector\<close>.
\<close>

record App =
  introspector :: "Introspector option"
  dbConfig :: "DBConfig option"
  generator :: "Generator option"
  connected :: bool

definition NewApp :: App where
  "NewApp = \<lparr>introspector = None, dbConfig = None, generator = None, connected = False\<rparr>"

definition ErrNotConnected :: error where
  "ErrNotConnected = New ''database not connected''"

text \<open>\<open>Startup\<close>; its argument is what \<open>config.LoadConfig\<close> returns (the database part of
  the configuration).\<close>

definition Startup :: "error + DBConfig \<Rightarrow> App \<Rightarrow> App" where
  "Startup loaded a =
     (case loaded of
        Inr cfg \<Rightarrow> if DBName cfg \<noteq> [] then a\<lparr>dbConfig := Some cfg\<rparr> else a
      | Inl err \<Rightarrow> a)"

definition ConnectDB :: "world \<Rightarrow> DBConfig \<Rightarrow> App \<Rightarrow> (error option \<times> App) \<times> event list" where
  "ConnectDB w cfg a =
     (case (if introspector a \<noteq> None
            then (a\<lparr>introspector := None, generator := None, connected := False\<rparr>, [CallClose])
            else (a, [])) of
        (a1, evs1) \<Rightarrow>
          (case NewIntrospector cfg of
             Inl err \<Rightarrow> ((Some (Errorf ''failed to create introspector'' err), a1), evs1)
           | Inr intro \<Rightarrow>
               (case db_Connect w cfg of
                  Some err \<Rightarrow>
                    ((Some (Errorf ''failed to connect to database'' err), a1),
                     evs1 @ [CallConnect cfg])
                | None \<Rightarrow>
                    ((None,
                      a1\<lparr>introspector := Some intro, dbConfig := Some cfg,
                         generator := Some NewGenerator, connected := True\<rparr>),
                     evs1 @ [CallConnect cfg, CallSaveConfig cfg]))))"

definition DisconnectDB :: "world \<Rightarrow> App \<Rightarrow> (error option \<times> App) \<times> event list" where
  "DisconnectDB w a =
     (if introspector a \<noteq> None then
        (case db_Close w of
           Some err \<Rightarrow> ((Some (Errorf ''failed to close connection'' err), a), [CallClose])
         | None \<Rightarrow>
             ((None, a\<lparr>introspector := None, generator := None, connected := False\<rparr>),
              [CallClose]))
      else ((None, a), []))"

definition FetchSchemas :: "world \<Rightarrow> App \<Rightarrow> (string list \<times> error option) \<times> event list" where
  "FetchSchemas w a =
     (if \<not> connected a \<or> introspector a = None then (([], Some ErrNotConnected), [])
      else case introspector a of
        Some (PostgresIntrospector cfg schema) \<Rightarrow>
          (case db_GetSchemas w of
             Inl err \<Rightarrow> (([], Some err), [CallGetSchemas])
           | Inr schemas \<Rightarrow> ((schemas, None), [CallGetSchemas]))
      | _ \<Rightarrow> (([], None), []))"

definition SetSchema :: "world \<Rightarrow> string \<Rightarrow> App \<Rightarrow> (error option \<times> App) \<times> event list" where
  "SetSchema w schema a =
     (if \<not> connected a \<or> introspector a = None then ((Some ErrNotConnected, a), [])
      else case introspector a of
        Some (PostgresIntrospector cfg old) \<Rightarrow>
          ((None, a\<lparr>introspector := Some (PostgresIntrospector cfg schema)\<rparr>), [])
      | _ \<Rightarrow> ((None, a), []))"

definition FetchTables :: "world \<Rightarrow> App \<Rightarrow> (string list \<times> error option) \<times> event list" where
  "FetchTables w a =
     (if \<not> connected a \<or> introspector a = None then (([], Some ErrNotConnected), [])
      else case db_GetTables w of
        Inl err \<Rightarrow> (([], Some (Errorf ''failed to fetch tables'' err)), [CallGetTables])
      | Inr tables \<Rightarrow> ((tables, None), [CallGetTables]))"

record ColumnInfo =
  ci_Name :: string
  ci_DataType :: string
  ci_RawType :: string
  ci_GoType :: string
  ci_IsNullable :: bool
  ci_IsPrimaryKey :: bool
  ci_IsAutoIncrement :: bool
  ci_DefaultValue :: "string option"
  ci_EnumValues :: "string list"
  ci_Comment :: string

definition columnInfo :: "unicode \<Rightarrow> ColumnMetadata \<Rightarrow> ColumnInfo" where
  "columnInfo u col =
     \<lparr>ci_Name = Name col, ci_DataType = DataType col, ci_RawType = RawType col,
      ci_GoType = fst (GetGoType u (RawType col) (IsNullable col)),
      ci_IsNullable = IsNullable col, ci_IsPrimaryKey = IsPrimaryKey col,
      ci_IsAutoIncrement = IsAutoIncrement col, ci_DefaultValue = DefaultValue col,
      ci_EnumValues = EnumValues col, ci_Comment = Comment col\<rparr>"

definition FetchTableSchema ::
  "world \<Rightarrow> string \<Rightarrow> App \<Rightarrow> (ColumnInfo list \<times> error option) \<times> event list" where
  "FetchTableSchema w tableName a =
     (if \<not> connected a \<or> introspector a = None then (([], Some ErrNotConnected), [])
      else case db_GetColumns w tableName of
        Inl err \<Rightarrow>
          (([], Some (Errorf (''failed to fetch schema for table '' @ tableName) err)),
           [CallGetColumns tableName])
      | Inr columns \<Rightarrow>
          ((map (columnInfo (go_unicode w)) columns, None), [CallGetColumns tableName]))"

definition GetCodePreview ::
  "world \<Rightarrow> string \<Rightarrow> App \<Rightarrow> (string \<times> error option) \<times> event list" where
  "GetCodePreview w tableName a =
     (case (connected a, generator a) of
        (True, Some g) \<Rightarrow>
          (case GenerateString w g tableName of
             ((code, Some err), evs) \<Rightarrow>
               (([], Some (Errorf (''failed to generate code for table '' @ tableName) err)), evs)
           | ((code, None), evs) \<Rightarrow> ((code, None), evs))
      | _ \<Rightarrow> (([], Some ErrNotConnected), []))"

definition SaveCodeToFile ::
  "world \<Rightarrow> string \<Rightarrow> string \<Rightarrow> App \<Rightarrow> error option \<times> event list" where
  "SaveCodeToFile w tableName filePath a =
     (case (connected a, generator a) of
        (True, Some g) \<Rightarrow>
          (case Generate w g tableName of
             ((code, Some err), evs) \<Rightarrow>
               (Some (Errorf (''failed to generate code for table '' @ tableName) err), evs)
           | ((code, None), evs) \<Rightarrow>
               (let dir = filepath_Dir w filePath;
                    bytes = (case code of None \<Rightarrow> [] | Some b \<Rightarrow> b)
                in case os_MkdirAll w dir of
                     Some err \<Rightarrow>
                       (Some (Errorf (''failed to create directory '' @ dir) err),
                        evs @ [CallMkdirAll dir])
                   | None \<Rightarrow>
                       (case os_WriteFile w filePath bytes of
                          Some err \<Rightarrow>
                            (Some (Errorf (''failed to write file '' @ filePath) err),
                             evs @ [CallMkdirAll dir, CallWriteFile filePath bytes])
                        | None \<Rightarrow>
                            (None, evs @ [CallMkdirAll dir, CallWriteFile filePath bytes]))))
      | _ \<Rightarrow> (Some ErrNotConnected, []))"

definition SaveAllToDirectory ::
  "world \<Rightarrow> (nat \<Rightarrow> world) \<Rightarrow> string \<Rightarrow> App
     \<Rightarrow> (string list \<times> error option) \<times> event list" where
  "SaveAllToDirectory w ws outputDir a =
     (case (connected a, generator a) of
        (True, Some g) \<Rightarrow>
          (case GenerateAll w ws g outputDir of
             ((filePaths, Some err), evs) \<Rightarrow>
               (([], Some (Errorf ''failed to generate all tables'' err)), evs)
           | ((filePaths, None), evs) \<Rightarrow> ((filePaths, None), evs))
      | _ \<Rightarrow> (([], Some ErrNotConnected), []))"

text \<open>
  The states of a session: \<open>NewApp\<close>, and what the methods that write a field make of a
  state, whatever the outside world answers. The other methods of \<open>App\<close> only read.
\<close>

inductive reachable :: "App \<Rightarrow> bool" where
  reach_NewApp: "reachable NewApp"
| reach_Startup: "reachable a \<Longrightarrow> reachable (Startup loaded a)"
| reach_ConnectDB: "reachable a \<Longrightarrow> reachable (snd (fst (ConnectDB w cfg a)))"
| reach_DisconnectDB: "reachable a \<Longrightarrow> reachable (snd (fst (DisconnectDB w a)))"
| reach_SetSchema: "reachable a \<Longrightarrow> reachable (snd (fst (SetSchema w schema a)))"

text \<open>What holds in every reachable state: the flag \<open>connected\<close>, the introspector and
  the generator are set and cleared together.\<close>

definition session_inv :: "App \<Rightarrow> bool" where
  "session_inv a = ((connected a \<longleftrightarrow> introspector a \<noteq> None) \<and> (generator a \<noteq> None \<longleftrightarrow> introspector a \<noteq> None))"

text \<open>A world for trying the generator and the session: three tables, of which the second
  has no readable metadata; connecting works for the database \<open>shop\<close> only.\<close>

definition sampleTable :: "string \<Rightarrow> TableMetadata" where
  "sampleTable t =
     \<lparr>Schema = ''shop'', TableName = t,
      Columns = [zeroColumn\<lparr>Name := ''id'', RawType := ''bigint'', IsPrimaryKey := True,
                   IsAutoIncrement := True\<rparr>,
                 zeroColumn\<lparr>Name := ''created_at'', RawType := ''timestamp''\<rparr>],
      TableComment = []\<rparr>"

definition sampleWorld :: world where
  "sampleWorld =
     \<lparr>db_Connect = (\<lambda>cfg. if DBName cfg = ''shop'' then None
                           else Some (New ''unknown database'')),
      db_Close = None,
      db_GetTables = Inr [''items'', ''orders'', ''users''],
      db_GetColumns = (\<lambda>t. Inr (Columns (sampleTable t))),
      db_GetTableMetadata =
        (\<lambda>t. if t = ''orders'' then Inl (New ''failed to query columns'')
              else Inr (sampleTable t)),
      db_GetSchemas = Inr [],
      template_Parse = None,
      template_Execute = (\<lambda>td. Inr (''package '' @ td_PackageName td @ '' type ''
                                      @ td_StructName td)),
      format_Source = (\<lambda>src. if src = ''package models type User''
                              then Inl (New ''expected declaration'') else Inr src),
      os_MkdirAll = (\<lambda>dir. None),
      os_WriteFile = (\<lambda>path bytes. None),
      filepath_Join = (\<lambda>dir file. dir @ ''/'' @ file),
      filepath_Dir = (\<lambda>path. path),
      strcase_ToSnake = (\<lambda>s. s),
      go_unicode = bytewiseUnicode\<rparr>"

text \<open>The outside world over the turns of a loop: as \<open>sampleWorld\<close> for every table but
  the second, at whose turn the directory can no longer be made.\<close>

definition sampleWorlds :: "nat \<Rightarrow> world" where
  "sampleWorlds k =
     (if k = 1 then sampleWorld\<lparr>os_MkdirAll := (\<lambda>dir. Some (New ''permission denied''))\<rparr>
      else sampleWorld)"

definition sampleConfig :: "string \<Rightarrow> DBConfig" where
  "sampleConfig db =
     \<lparr>Host = ''localhost'', Port = 3306, User = ''root'', Password = [], DBName = db,
      Driver = ''mysql''\<rparr>"

section \<open>What the enum pattern and lower-casing mean\<close>

text \<open>
  The first regular expression of \<open>ParseEnumValues\<close>, \<open>enum\s*\(\s*(.+)\s*\)\<close>, read as a
  description of texts and not as a matcher: \<open>s\<close> starts with a match whose group is
  \<open>grp\<close> when it is \<open>enum\<close>, white space, an opening parenthesis, white space, the group
  (at least one byte, no newline), white space, a closing parenthesis, and anything after.
  A text holds the pattern when a match starts somewhere in it.
\<close>

definition enumMatchAt :: "string \<Rightarrow> string \<Rightarrow> bool" where
  "enumMatchAt s grp =
     (\<exists>ws1 ws2 ws3 post.
        s = ''enum'' @ ws1 @ ''('' @ ws2 @ grp @ ws3 @ '')'' @ post
        \<and> list_all isReSpace ws1 \<and> list_all isReSpace ws2
        \<and> grp \<noteq> [] \<and> list_all isReDot grp \<and> list_all isReSpace ws3)"

definition enumPattern :: "string \<Rightarrow> bool" where
  "enumPattern s = (\<exists>pre rest grp. s = pre @ rest \<and> enumMatchAt rest grp)"

text \<open>
  Four properties of a lower-casing that works rune by rune, as \<open>strings.ToLower\<close>
  does: lower-casing a lower-cased text changes nothing; a text is lower-cased piece by
  piece on both sides of an ASCII quote, which stays; no quote comes out where none went
  in; and no letter \<open>A-Z\<close> comes out at all. On ASCII text they hold by the definition of
  \<open>ToLower\<close>; for other text they say what is used of the parameter \<open>unicode\<close>.
\<close>

definition ToLower_runewise :: "unicode \<Rightarrow> bool" where
  "ToLower_runewise u =
     ((\<forall>s. ToLower u (ToLower u s) = ToLower u s)
      \<and> (\<forall>a b. ToLower u (a @ CHR 0x27 # b) = ToLower u a @ CHR 0x27 # ToLower u b)
      \<and> (\<forall>a. CHR 0x27 \<in> set (ToLower u a) \<longrightarrow> CHR 0x27 \<in> set a)
      \<and> (\<forall>s. \<forall>c\<in>set (ToLower u s). \<not> isUpperByte c))"

section \<open>Devices for reasoning about the acronym correction\<close>

text \<open>
  A pattern occurs at a word boundary at the head of \<open>s\<close> when \<open>s\<close> starts with it and the
  rest is empty or starts with a letter \<open>A-Z\<close>: the test that \<open>replaceAcronym\<close> makes at
  index \<open>i\<close>, said of the bytes from \<open>i\<close> on.
\<close>

definition occursAtBoundary :: "string \<Rightarrow> string \<Rightarrow> bool" where
  "occursAtBoundary pattern s =
     (take (length pattern) s = pattern
      \<and> (drop (length pattern) s = [] \<or> isUpperByte (hd (drop (length pattern) s))))"

text \<open>
  What the loop of \<open>replaceAcronym\<close> makes of the bytes it has not passed yet, as a
  recursion on those bytes. It is not a model of the source but a tool: lemma
  \<open>loop_is_scan\<close> shows that the loop, started at index \<open>i\<close>, returns the bytes before
  \<open>i\<close> followed by this function of the bytes from \<open>i\<close> on.
\<close>

function scanAcronym :: "string \<Rightarrow> string \<Rightarrow> string \<Rightarrow> string" where
  "scanAcronym pattern replacement s =
     (if pattern = [] \<or> length s < length pattern then s
      else if occursAtBoundary pattern s
        then replacement @ scanAcronym pattern replacement (drop (length pattern) s)
      else hd s # scanAcronym pattern replacement (tl s))"
  by pat_completeness auto
termination
  by (relation "measure (\<lambda>(p, r, s). length s)") (auto simp: not_less neq_Nil_conv)

declare scanAcronym.simps [simp del]

text \<open>What the proofs use of an entry of the table: at least two bytes, a replacement of
  the same length with the same first byte, an upper-case first letter, no upper-case
  letter after it in the pattern and only upper-case letters after it in the
  replacement.\<close>

definition entry_ok :: "string \<times> string \<Rightarrow> bool" where
  "entry_ok e =
     (case e of (pattern, replacement) \<Rightarrow>
        2 \<le> length pattern \<and> length replacement = length pattern
        \<and> hd replacement = hd pattern \<and> isUpperByte (hd pattern)
        \<and> list_all (\<lambda>c. \<not> isUpperByte c) (tl pattern)
        \<and> list_all isUpperByte (tl replacement))"

definition pattern_ok :: "string \<Rightarrow> bool" where
  "pattern_ok q = (2 \<le> length q \<and> list_all (\<lambda>c. \<not> isUpperByte c) (tl q))"

text \<open>The replacements of a list of entries, one entry after the other.\<close>

definition scanAll :: "(string \<times> string) list \<Rightarrow> string \<Rightarrow> string" where
  "scanAll order s = fold (\<lambda>(p, r). scanAcronym p r) order s"

text \<open>No occurrence of the pattern at a word boundary anywhere in \<open>s\<close>.\<close>

definition no_occ :: "string \<Rightarrow> string \<Rightarrow> bool" where
  "no_occ q s = (\<forall>i. \<not> occursAtBoundary q (drop i s))"

section \<open>Properties of the type mapper\<close>

text \<open>
  Claim C1. For every raw database type string, \<open>GetGoType\<close> returns the same triple
  (Go type, import path, note) whether the column is nullable or not: no pointer is put in
  front of the type on any branch. On the fallback branch for an unknown type the type is
  \<open>interface{}\<close> for a nullable column too.
\<close>

theorem GetGoType_ignores_nullable:
  "GetGoType u dbType True = GetGoType u dbType False
   \<and> GetGoType u ''custom_type'' True = (''interface{}'', [], ''// unknown type: custom_type'')
   \<and> GetGoType u ''custom_type'' False = (''interface{}'', [], ''// unknown type: custom_type'')"
proof -
  have "GetGoType u dbType True = GetGoType u dbType False"
    unfolding GetGoType_def applyNullable_def by (rule refl)
  moreover have
    "GetGoType u ''custom_type'' True = (''interface{}'', [], ''// unknown type: custom_type'')"
    by code_simp
  moreover have
    "GetGoType u ''custom_type'' False = (''interface{}'', [], ''// unknown type: custom_type'')"
    by code_simp
  ultimately show ?thesis by blast
qed



section \<open>Properties of the tag builder\<close>

lemma gormParts_spec: "gormParts u col = spec_gormAttributes u col"
  by (simp add: gormParts_def spec_gormAttributes_def Let_def split: option.splits)

text \<open>The slice in \<open>cleanDefaultValue\<close> is in range: a string that starts with \<open>(\<close> and
  ends with \<open>)\<close> has at least two bytes.\<close>

lemma cleanDefaultValue_slice_in_range:
  "HasPrefix defaultVal ''('' \<Longrightarrow> HasSuffix defaultVal '')'' \<Longrightarrow>
     1 \<le> length defaultVal - 1 \<and> length defaultVal - 1 \<le> length defaultVal"
proof -
  assume p: "HasPrefix defaultVal ''(''" and s: "HasSuffix defaultVal '')''"
  have "length defaultVal \<noteq> 1"
  proof
    assume "length defaultVal = 1"
    then obtain c where "defaultVal = [c]"
      by (cases defaultVal) auto
    with p s show False by (simp add: HasPrefix_def HasSuffix_def)
  qed
  moreover from p have "1 \<le> length defaultVal" by (simp add: HasPrefix_def)
  ultimately show ?thesis by arith
qed

text \<open>Splitting and searching a text that was joined with a separator.\<close>

lemma SplitByte_not_Nil: "SplitByte s sep \<noteq> []"
  by (induction s) (auto split: list.splits)

lemma SplitByte_no_sep: "sep \<notin> set a \<Longrightarrow> SplitByte a sep = [a]"
  by (induction a) auto

lemma SplitByte_append_sep: "SplitByte (a @ sep # b) sep = SplitByte a sep @ SplitByte b sep"
proof (induction a)
  case Nil
  show ?case by simp
next
  case (Cons c cs)
  obtain w ws where w: "SplitByte cs sep = w # ws"
    using SplitByte_not_Nil [of cs sep] by (cases "SplitByte cs sep") auto
  with Cons show ?case by simp
qed

lemma SplitByte_Join:
  "ps \<noteq> [] \<Longrightarrow> \<forall>p\<in>set ps. sep \<notin> set p \<Longrightarrow> SplitByte (Join ps [sep]) sep = ps"
proof (induction ps "[sep]" rule: Join.induct)
  case 1
  then show ?case by simp
next
  case (2 x)
  then show ?case by (simp add: SplitByte_no_sep)
next
  case (3 x y ys)
  then show ?case by (simp add: SplitByte_append_sep SplitByte_no_sep)
qed

lemma HasPrefix_append_sep:
  assumes "c \<notin> set sub"
  shows "HasPrefix (a @ c # b) sub = HasPrefix a sub"
proof (cases "length sub \<le> length a")
  case True
  then show ?thesis by (simp add: HasPrefix_def)
next
  case False
  have "take (length sub) (a @ c # b) \<noteq> sub"
  proof
    assume e: "take (length sub) (a @ c # b) = sub"
    from False have "c \<in> set (take (length sub) (a @ c # b))"
      by (cases "length sub - length a") simp_all
    with e assms show False by simp
  qed
  with False show ?thesis by (simp add: HasPrefix_def)
qed

lemma Contains_append_sep:
  assumes "c \<notin> set sub" and "sub \<noteq> []"
  shows "Contains (a @ c # b) sub = (Contains a sub \<or> Contains b sub)"
proof (induction a)
  case Nil
  from assms have "\<not> HasPrefix (c # b) sub"
    by (cases sub) (auto simp: HasPrefix_def)
  with assms show ?case by simp
next
  case (Cons x xs)
  from HasPrefix_append_sep [OF assms(1), of "x # xs" b] Cons show ?case by auto
qed

lemma Contains_Join:
  assumes "c \<notin> set sub" and "sub \<noteq> []"
  shows "Contains (Join ps [c]) sub = (\<exists>p\<in>set ps. Contains p sub)"
proof (induction ps "[c]" rule: Join.induct)
  case 1
  from assms show ?case by simp
next
  case (2 x)
  show ?case by simp
next
  case (3 x y ys)
  then show ?case by (simp add: Contains_append_sep [OF assms])
qed

lemma BuildGormTag_spec:
  "BuildGormTag u col
     = ''gorm:'' @ [CHR 0x22] @ Join (spec_gormAttributes u col) '';'' @ [CHR 0x22]"
  by (simp add: BuildGormTag_def gormParts_spec)

lemma tagAttributes_BuildGormTag:
  "tagAttributes (BuildGormTag u col)
     = SplitByte (Join (spec_gormAttributes u col) '';'') CHR '';''"
  by (simp add: tagAttributes_def BuildGormTag_spec)

lemma spec_gormAttributes_subseq:
  "subseq (spec_gormAttributes u col)
     [''primaryKey'', ''autoIncrement'', ''column:'' @ Name col, ''type:'' @ RawType col,
      ''default:'' @ (case DefaultValue col of None \<Rightarrow> [] | Some d \<Rightarrow> cleanDefaultValue u d),
      ''not null'']"
  unfolding spec_gormAttributes_def
  by (auto split: option.splits)

text \<open>When no value that goes into the tag holds a semicolon, the attributes read from
  the tag are the attributes put into it.\<close>

lemma tagAttributes_spec:
  assumes "CHR '';'' \<notin> set (Name col)" and "CHR '';'' \<notin> set (RawType col)"
    and "case DefaultValue col of None \<Rightarrow> True
         | Some d \<Rightarrow> CHR '';'' \<notin> set (cleanDefaultValue u d)"
  shows "tagAttributes (BuildGormTag u col) = spec_gormAttributes u col"
proof -
  have ne: "spec_gormAttributes u col \<noteq> []"
    by (simp add: spec_gormAttributes_def)
  have "\<forall>p\<in>set (spec_gormAttributes u col). CHR '';'' \<notin> set p"
    using assms by (auto simp: spec_gormAttributes_def split: option.splits if_splits)
  from SplitByte_Join [OF ne this] show ?thesis
    by (simp add: tagAttributes_BuildGormTag)
qed

text \<open>Where the text \<open>not null\<close> can come from in a tag.\<close>

lemma Contains_tag_not_null:
  "Contains (BuildGormTag u col) ''not null''
     = (\<exists>p\<in>set (spec_gormAttributes u col). Contains p ''not null'')"
proof -
  let ?j = "Join (spec_gormAttributes u col) '';''"
  have g: "Contains ''gorm:'' ''not null'' = False" by code_simp
  have n: "Contains [] ''not null'' = False" by simp
  have e: "BuildGormTag u col = ''gorm:'' @ CHR 0x22 # (?j @ CHR 0x22 # [])"
    by (simp add: BuildGormTag_spec)
  have 1: "Contains (''gorm:'' @ CHR 0x22 # (?j @ CHR 0x22 # [])) ''not null''
      = (Contains ''gorm:'' ''not null'' \<or> Contains (?j @ CHR 0x22 # []) ''not null'')"
    by (rule Contains_append_sep) simp_all
  have 2: "Contains (?j @ CHR 0x22 # []) ''not null''
      = (Contains ?j ''not null'' \<or> Contains [] ''not null'')"
    by (rule Contains_append_sep) simp_all
  have "Contains (BuildGormTag u col) ''not null'' = Contains ?j ''not null''"
    by (simp only: e 1 2 g n simp_thms)
  also have "\<dots> = (\<exists>p\<in>set (spec_gormAttributes u col). Contains p ''not null'')"
    by (rule Contains_Join) simp_all
  finally show ?thesis .
qed

lemma Contains_after_colon:
  assumes "Contains k ''not null'' = False"
  shows "Contains (k @ CHR '':'' # v) ''not null'' = Contains v ''not null''"
proof -
  have "Contains (k @ CHR '':'' # v) ''not null''
      = (Contains k ''not null'' \<or> Contains v ''not null'')"
    by (rule Contains_append_sep) simp_all
  with assms show ?thesis by (simp only: simp_thms)
qed

lemma Contains_attribute_not_null:
  "Contains (''column:'' @ v) ''not null'' = Contains v ''not null''"
  "Contains (''type:'' @ v) ''not null'' = Contains v ''not null''"
  "Contains (''default:'' @ v) ''not null'' = Contains v ''not null''"
proof -
  have c: "Contains ''column'' ''not null'' = False" by code_simp
  have t: "Contains ''type'' ''not null'' = False" by code_simp
  have d: "Contains ''default'' ''not null'' = False" by code_simp
  have 1: "''column:'' @ v = ''column'' @ CHR '':'' # v" by simp
  have 2: "''type:'' @ v = ''type'' @ CHR '':'' # v" by simp
  have 3: "''default:'' @ v = ''default'' @ CHR '':'' # v" by simp
  show "Contains (''column:'' @ v) ''not null'' = Contains v ''not null''"
    unfolding 1 by (rule Contains_after_colon [OF c])
  show "Contains (''type:'' @ v) ''not null'' = Contains v ''not null''"
    unfolding 2 by (rule Contains_after_colon [OF t])
  show "Contains (''default:'' @ v) ''not null'' = Contains v ''not null''"
    unfolding 3 by (rule Contains_after_colon [OF d])
qed

lemma Contains_marker_not_null:
  "\<not> Contains ''primaryKey'' ''not null''"
  "\<not> Contains ''autoIncrement'' ''not null''"
  "Contains ''not null'' ''not null''"
  "\<not> Contains [] ''not null''"
  by code_simp+

lemma ex_spec_gormAttributes:
  "(\<exists>p\<in>set (spec_gormAttributes u col). P p)
     \<longleftrightarrow> (IsPrimaryKey col \<and> P ''primaryKey'') \<or> (IsAutoIncrement col \<and> P ''autoIncrement'')
         \<or> P (''column:'' @ Name col) \<or> P (''type:'' @ RawType col)
         \<or> (case DefaultValue col of None \<Rightarrow> False
             | Some d \<Rightarrow> cleanDefaultValue u d \<noteq> [] \<and> P (''default:'' @ cleanDefaultValue u d))
         \<or> (\<not> IsNullable col \<and> \<not> IsPrimaryKey col \<and> P ''not null'')"
proof (cases "DefaultValue col")
  case None
  then show ?thesis
    unfolding spec_gormAttributes_def set_append bex_Un by simp
next
  case (Some d)
  then show ?thesis
    unfolding spec_gormAttributes_def set_append bex_Un by simp
qed

lemma Contains_BuildGormTag_not_null:
  "Contains (BuildGormTag u col) ''not null''
     \<longleftrightarrow> (\<not> IsNullable col \<and> \<not> IsPrimaryKey col)
         \<or> Contains (Name col) ''not null'' \<or> Contains (RawType col) ''not null''
         \<or> (case DefaultValue col of None \<Rightarrow> False
             | Some d \<Rightarrow> Contains (cleanDefaultValue u d) ''not null'')"
proof -
  have d: "(cleanDefaultValue u d \<noteq> [] \<and> Contains (cleanDefaultValue u d) ''not null'')
      = Contains (cleanDefaultValue u d) ''not null''" for d
    using Contains_marker_not_null(4) by (cases "cleanDefaultValue u d = []") simp_all
  have "Contains (BuildGormTag u col) ''not null''
      \<longleftrightarrow> (IsPrimaryKey col \<and> False) \<or> (IsAutoIncrement col \<and> False)
         \<or> Contains (Name col) ''not null'' \<or> Contains (RawType col) ''not null''
         \<or> (case DefaultValue col of None \<Rightarrow> False
             | Some d \<Rightarrow> Contains (cleanDefaultValue u d) ''not null'')
         \<or> (\<not> IsNullable col \<and> \<not> IsPrimaryKey col \<and> True)"
    unfolding Contains_tag_not_null ex_spec_gormAttributes Contains_attribute_not_null d
    using Contains_marker_not_null by (simp only:)
  then show ?thesis by (simp only: simp_thms) blast
qed

lemma tagAttributes_not_null:
  assumes "tagAttributes (BuildGormTag u col) = spec_gormAttributes u col"
  shows "''not null'' \<in> set (tagAttributes (BuildGormTag u col))
           \<longleftrightarrow> \<not> IsNullable col \<and> \<not> IsPrimaryKey col"
proof -
  have "''not null'' \<in> set (spec_gormAttributes u col)
      \<longleftrightarrow> (\<exists>p\<in>set (spec_gormAttributes u col). p = ''not null'')"
    by blast
  also have "\<dots> \<longleftrightarrow> \<not> IsNullable col \<and> \<not> IsPrimaryKey col"
    unfolding ex_spec_gormAttributes by (simp split: option.splits)
  finally show ?thesis using assms by simp
qed

text \<open>
  Claim C2. A column named \<open>id\<close> of raw type \<open>int unsigned\<close> that is a primary key,
  auto-increments, is not nullable and has no default gets the tag
  \<open>gorm:"primaryKey;autoIncrement;column:id;type:int unsigned"\<close>, whose attributes are
  \<open>primaryKey\<close>, \<open>autoIncrement\<close>, \<open>column:id\<close>, \<open>type:int unsigned\<close>, without a not-null
  marker. For every column the tag that \<open>BuildGormTag\<close> returns is \<open>gorm:"..."\<close> around
  the attributes that the specification lists, in its order, joined with semicolons. The
  values are put in as they are: when neither the column name, nor the raw type, nor the
  cleaned default holds a semicolon, the attributes read from the tag are exactly those,
  a subsequence of the fixed sequence primary key, auto-increment, column name, declared
  type, default, not null. The order of the attributes read from the tag is not fixed for
  every column: see the column \<open>a;primaryKey\<close> below.
\<close>

theorem gorm_tag_attribute_order:
  "(Name col = ''id'' \<and> RawType col = ''int unsigned'' \<and> IsPrimaryKey col
      \<and> IsAutoIncrement col \<and> \<not> IsNullable col \<and> DefaultValue col = None
    \<longrightarrow> BuildGormTag u col =
          ''gorm:'' @ [CHR 0x22] @ ''primaryKey;autoIncrement;column:id;type:int unsigned''
            @ [CHR 0x22]
        \<and> tagAttributes (BuildGormTag u col)
            = [''primaryKey'', ''autoIncrement'', ''column:id'', ''type:int unsigned''])
   \<and> BuildGormTag u col
       = ''gorm:'' @ [CHR 0x22] @ Join (spec_gormAttributes u col) '';'' @ [CHR 0x22]
   \<and> (CHR '';'' \<notin> set (Name col) \<and> CHR '';'' \<notin> set (RawType col)
      \<and> (case DefaultValue col of None \<Rightarrow> True
          | Some d \<Rightarrow> CHR '';'' \<notin> set (cleanDefaultValue u d))
    \<longrightarrow> tagAttributes (BuildGormTag u col) = spec_gormAttributes u col
        \<and> subseq (tagAttributes (BuildGormTag u col))
            [''primaryKey'', ''autoIncrement'', ''column:'' @ Name col,
             ''type:'' @ RawType col,
             ''default:''
               @ (case DefaultValue col of None \<Rightarrow> [] | Some d \<Rightarrow> cleanDefaultValue u d),
             ''not null''])"
proof (intro conjI impI)
  assume h: "Name col = ''id'' \<and> RawType col = ''int unsigned'' \<and> IsPrimaryKey col
      \<and> IsAutoIncrement col \<and> \<not> IsNullable col \<and> DefaultValue col = None"
  then have s: "spec_gormAttributes u col
      = [''primaryKey'', ''autoIncrement'', ''column:id'', ''type:int unsigned'']"
    by (simp add: spec_gormAttributes_def)
  show "BuildGormTag u col =
          ''gorm:'' @ [CHR 0x22] @ ''primaryKey;autoIncrement;column:id;type:int unsigned''
            @ [CHR 0x22]"
    unfolding BuildGormTag_spec s by simp
  from h have "tagAttributes (BuildGormTag u col) = spec_gormAttributes u col"
    by (intro tagAttributes_spec) simp_all
  with s show "tagAttributes (BuildGormTag u col)
            = [''primaryKey'', ''autoIncrement'', ''column:id'', ''type:int unsigned'']"
    by simp
next
  show "BuildGormTag u col
       = ''gorm:'' @ [CHR 0x22] @ Join (spec_gormAttributes u col) '';'' @ [CHR 0x22]"
    by (rule BuildGormTag_spec)
next
  assume h: "CHR '';'' \<notin> set (Name col) \<and> CHR '';'' \<notin> set (RawType col)
      \<and> (case DefaultValue col of None \<Rightarrow> True
          | Some d \<Rightarrow> CHR '';'' \<notin> set (cleanDefaultValue u d))"
  then show e: "tagAttributes (BuildGormTag u col) = spec_gormAttributes u col"
    by (intro tagAttributes_spec) simp_all
  show "subseq (tagAttributes (BuildGormTag u col))
            [''primaryKey'', ''autoIncrement'', ''column:'' @ Name col,
             ''type:'' @ RawType col,
             ''default:''
               @ (case DefaultValue col of None \<Rightarrow> [] | Some d \<Rightarrow> cleanDefaultValue u d),
             ''not null'']"
    unfolding e by (rule spec_gormAttributes_subseq)
qed

theorem gorm_tag_attribute_order_witness:
  "BuildGormTag bytewiseUnicode
       (zeroColumn\<lparr>Name := ''id'', RawType := ''int unsigned'', IsPrimaryKey := True,
          IsAutoIncrement := True, IsNullable := False\<rparr>)
     = ''gorm:'' @ [CHR 0x22] @ ''primaryKey;autoIncrement;column:id;type:int unsigned''
         @ [CHR 0x22]
   \<and> tagAttributes (BuildGormTag bytewiseUnicode
         (zeroColumn\<lparr>Name := ''id'', RawType := ''int unsigned'', IsPrimaryKey := True,
            IsAutoIncrement := True, IsNullable := False\<rparr>))
       = [''primaryKey'', ''autoIncrement'', ''column:id'', ''type:int unsigned'']
   \<and> CHR '';'' \<notin> set ''status'' \<and> CHR '';'' \<notin> set ''varchar(20)''
   \<and> CHR '';'' \<notin> set (cleanDefaultValue bytewiseUnicode ''active'')
   \<and> tagAttributes (BuildGormTag bytewiseUnicode
         (zeroColumn\<lparr>Name := ''status'', RawType := ''varchar(20)'',
            DefaultValue := Some ''active''\<rparr>))
       = [''column:status'', ''type:varchar(20)'', ''default:active'', ''not null'']"
proof -
  let ?c = "zeroColumn\<lparr>Name := ''id'', RawType := ''int unsigned'', IsPrimaryKey := True,
       IsAutoIncrement := True, IsNullable := False\<rparr>"
  let ?d = "zeroColumn\<lparr>Name := ''status'', RawType := ''varchar(20)'',
       DefaultValue := Some ''active''\<rparr>"
  have h: "Name ?c = ''id'' \<and> RawType ?c = ''int unsigned'' \<and> IsPrimaryKey ?c
      \<and> IsAutoIncrement ?c \<and> \<not> IsNullable ?c \<and> DefaultValue ?c = None"
    by (simp add: zeroColumn_def)
  have n: "CHR '';'' \<notin> set ''status''" and r: "CHR '';'' \<notin> set ''varchar(20)''"
    by simp_all
  have cl: "cleanDefaultValue bytewiseUnicode ''active'' = ''active''" by code_simp
  then have d: "CHR '';'' \<notin> set (cleanDefaultValue bytewiseUnicode ''active'')" by simp
  have k: "CHR '';'' \<notin> set (Name ?d) \<and> CHR '';'' \<notin> set (RawType ?d)
      \<and> (case DefaultValue ?d of None \<Rightarrow> True
          | Some d \<Rightarrow> CHR '';'' \<notin> set (cleanDefaultValue bytewiseUnicode d))"
    using d by (simp add: zeroColumn_def)
  have s: "spec_gormAttributes bytewiseUnicode ?d
      = [''column:status'', ''type:varchar(20)'', ''default:active'', ''not null'']"
    by (simp add: spec_gormAttributes_def zeroColumn_def cl)
  from gorm_tag_attribute_order [of ?c bytewiseUnicode] h
  have 1: "BuildGormTag bytewiseUnicode ?c
     = ''gorm:'' @ [CHR 0x22] @ ''primaryKey;autoIncrement;column:id;type:int unsigned''
         @ [CHR 0x22]"
    and 2: "tagAttributes (BuildGormTag bytewiseUnicode ?c)
       = [''primaryKey'', ''autoIncrement'', ''column:id'', ''type:int unsigned'']"
    by blast+
  from gorm_tag_attribute_order [of ?d bytewiseUnicode] k
  have "tagAttributes (BuildGormTag bytewiseUnicode ?d) = spec_gormAttributes bytewiseUnicode ?d"
    by blast
  with s have 3: "tagAttributes (BuildGormTag bytewiseUnicode ?d)
       = [''column:status'', ''type:varchar(20)'', ''default:active'', ''not null'']"
    by simp
  from 1 2 n r d 3 show ?thesis by blast
qed

text \<open>
  The order of the attributes in the tag is not fixed for every column. The name of a
  column goes into the tag as it is, so a semicolon in it ends the column-name attribute:
  the column \<open>a;primaryKey\<close> of type \<open>int\<close>, which is not a primary key, gets the tag
  \<open>gorm:"column:a;primaryKey;type:int"\<close>, in which the primary-key marker stands after
  the column name.
\<close>

theorem gorm_tag_attribute_order_counterexample:
  "BuildGormTag bytewiseUnicode
       (zeroColumn\<lparr>Name := ''a;primaryKey'', RawType := ''int'', IsNullable := True\<rparr>)
     = ''gorm:'' @ [CHR 0x22] @ ''column:a;primaryKey;type:int'' @ [CHR 0x22]
   \<and> tagAttributes (BuildGormTag bytewiseUnicode
         (zeroColumn\<lparr>Name := ''a;primaryKey'', RawType := ''int'', IsNullable := True\<rparr>))
       = [''column:a'', ''primaryKey'', ''type:int'']
   \<and> \<not> IsPrimaryKey
         (zeroColumn\<lparr>Name := ''a;primaryKey'', RawType := ''int'', IsNullable := True\<rparr>)
   \<and> \<not> subseq
         (tagAttributes (BuildGormTag bytewiseUnicode
            (zeroColumn\<lparr>Name := ''a;primaryKey'', RawType := ''int'', IsNullable := True\<rparr>)))
         [''primaryKey'', ''autoIncrement'', ''column:a;primaryKey'', ''type:int'',
          ''default:'', ''not null'']"
proof -
  let ?c = "zeroColumn\<lparr>Name := ''a;primaryKey'', RawType := ''int'', IsNullable := True\<rparr>"
  have 1: "BuildGormTag bytewiseUnicode ?c
     = ''gorm:'' @ [CHR 0x22] @ ''column:a;primaryKey;type:int'' @ [CHR 0x22]"
    by code_simp
  have 2: "tagAttributes (BuildGormTag bytewiseUnicode ?c)
       = [''column:a'', ''primaryKey'', ''type:int'']"
    by code_simp
  have 3: "\<not> IsPrimaryKey ?c" by (simp add: zeroColumn_def)
  have 4: "\<not> subseq [''column:a'', ''primaryKey'', ''type:int'']
         [''primaryKey'', ''autoIncrement'', ''column:a;primaryKey'', ''type:int'',
          ''default:'', ''not null'']"
    by simp
  from 1 2 3 4 show ?thesis by simp
qed

text \<open>
  Claim C3. For every column, the tag that \<open>BuildGormTag\<close> returns contains the text
  \<open>not null\<close> exactly when the column is neither nullable nor a primary key, or the text
  stands in the column name, in the raw type or in the cleaned default, which go into the
  tag as they are. So when none of these three holds the text, the tag contains it
  exactly when the column is neither nullable nor a primary key; and when none of the
  three holds a semicolon, \<open>not null\<close> is one of the attributes read from the tag exactly
  when the column is neither nullable nor a primary key. The tag of the non-nullable,
  non-key column \<open>email\<close> of type \<open>varchar(255)\<close> contains \<open>not null\<close>; the tag of the
  nullable column \<open>description\<close> of type \<open>text\<close> does not. Without the conditions on
  the values the equivalence fails: see the nullable column with the default \<open>not null\<close>
  below.
\<close>

theorem not_null_marker_iff:
  "(Contains (BuildGormTag u col) ''not null''
      \<longleftrightarrow> (\<not> IsNullable col \<and> \<not> IsPrimaryKey col)
          \<or> Contains (Name col) ''not null'' \<or> Contains (RawType col) ''not null''
          \<or> (case DefaultValue col of None \<Rightarrow> False
              | Some d \<Rightarrow> Contains (cleanDefaultValue u d) ''not null''))
   \<and> (\<not> Contains (Name col) ''not null'' \<and> \<not> Contains (RawType col) ''not null''
      \<and> (case DefaultValue col of None \<Rightarrow> True
          | Some d \<Rightarrow> \<not> Contains (cleanDefaultValue u d) ''not null'')
    \<longrightarrow> (Contains (BuildGormTag u col) ''not null''
          \<longleftrightarrow> \<not> IsNullable col \<and> \<not> IsPrimaryKey col))
   \<and> (CHR '';'' \<notin> set (Name col) \<and> CHR '';'' \<notin> set (RawType col)
      \<and> (case DefaultValue col of None \<Rightarrow> True
          | Some d \<Rightarrow> CHR '';'' \<notin> set (cleanDefaultValue u d))
    \<longrightarrow> (''not null'' \<in> set (tagAttributes (BuildGormTag u col))
          \<longleftrightarrow> \<not> IsNullable col \<and> \<not> IsPrimaryKey col))
   \<and> Contains (BuildGormTag u (zeroColumn\<lparr>Name := ''email'', RawType := ''varchar(255)'',
         IsNullable := False\<rparr>)) ''not null''
   \<and> \<not> Contains (BuildGormTag u (zeroColumn\<lparr>Name := ''description'', RawType := ''text'',
         IsNullable := True\<rparr>)) ''not null''"
proof -
  note full = Contains_BuildGormTag_not_null [of u col]
  have clean: "Contains (BuildGormTag u col) ''not null''
          \<longleftrightarrow> \<not> IsNullable col \<and> \<not> IsPrimaryKey col"
    if "\<not> Contains (Name col) ''not null'' \<and> \<not> Contains (RawType col) ''not null''
      \<and> (case DefaultValue col of None \<Rightarrow> True
          | Some d \<Rightarrow> \<not> Contains (cleanDefaultValue u d) ''not null'')"
    using that unfolding full by (auto split: option.splits)
  have attr: "''not null'' \<in> set (tagAttributes (BuildGormTag u col))
          \<longleftrightarrow> \<not> IsNullable col \<and> \<not> IsPrimaryKey col"
    if h: "CHR '';'' \<notin> set (Name col) \<and> CHR '';'' \<notin> set (RawType col)
      \<and> (case DefaultValue col of None \<Rightarrow> True
          | Some d \<Rightarrow> CHR '';'' \<notin> set (cleanDefaultValue u d))"
  proof -
    from h have "tagAttributes (BuildGormTag u col) = spec_gormAttributes u col"
      by (intro tagAttributes_spec) simp_all
    then show ?thesis by (rule tagAttributes_not_null)
  qed
  have e: "Contains (BuildGormTag u (zeroColumn\<lparr>Name := ''email'',
         RawType := ''varchar(255)'', IsNullable := False\<rparr>)) ''not null''"
    by code_simp
  have d: "\<not> Contains (BuildGormTag u (zeroColumn\<lparr>Name := ''description'',
         RawType := ''text'', IsNullable := True\<rparr>)) ''not null''"
    by code_simp
  from full clean attr e d show ?thesis by blast
qed

theorem not_null_marker_iff_witness:
  "\<not> Contains ''email'' ''not null'' \<and> \<not> Contains ''varchar(255)'' ''not null''
   \<and> Contains (BuildGormTag bytewiseUnicode
        (zeroColumn\<lparr>Name := ''email'', RawType := ''varchar(255)''\<rparr>)) ''not null''
   \<and> \<not> Contains (BuildGormTag bytewiseUnicode
        (zeroColumn\<lparr>Name := ''email'', RawType := ''varchar(255)'', IsPrimaryKey := True\<rparr>))
        ''not null''
   \<and> CHR '';'' \<notin> set ''email'' \<and> CHR '';'' \<notin> set ''varchar(255)''
   \<and> ''not null'' \<in> set (tagAttributes (BuildGormTag bytewiseUnicode
        (zeroColumn\<lparr>Name := ''email'', RawType := ''varchar(255)''\<rparr>)))
   \<and> ''not null'' \<notin> set (tagAttributes (BuildGormTag bytewiseUnicode
        (zeroColumn\<lparr>Name := ''email'', RawType := ''varchar(255)'', IsNullable := True\<rparr>)))"
proof -
  let ?a = "zeroColumn\<lparr>Name := ''email'', RawType := ''varchar(255)''\<rparr>"
  let ?b = "zeroColumn\<lparr>Name := ''email'', RawType := ''varchar(255)'', IsPrimaryKey := True\<rparr>"
  let ?c = "zeroColumn\<lparr>Name := ''email'', RawType := ''varchar(255)'', IsNullable := True\<rparr>"
  have n: "\<not> Contains ''email'' ''not null''" and r: "\<not> Contains ''varchar(255)'' ''not null''"
    by code_simp+
  have sn: "CHR '';'' \<notin> set ''email''" and sr: "CHR '';'' \<notin> set ''varchar(255)''"
    by simp_all
  have ha: "\<not> Contains (Name ?a) ''not null'' \<and> \<not> Contains (RawType ?a) ''not null''
      \<and> (case DefaultValue ?a of None \<Rightarrow> True
          | Some d \<Rightarrow> \<not> Contains (cleanDefaultValue bytewiseUnicode d) ''not null'')"
    using n r by (simp add: zeroColumn_def)
  have hb: "\<not> Contains (Name ?b) ''not null'' \<and> \<not> Contains (RawType ?b) ''not null''
      \<and> (case DefaultValue ?b of None \<Rightarrow> True
          | Some d \<Rightarrow> \<not> Contains (cleanDefaultValue bytewiseUnicode d) ''not null'')"
    using n r by (simp add: zeroColumn_def)
  have ka: "CHR '';'' \<notin> set (Name ?a) \<and> CHR '';'' \<notin> set (RawType ?a)
      \<and> (case DefaultValue ?a of None \<Rightarrow> True
          | Some d \<Rightarrow> CHR '';'' \<notin> set (cleanDefaultValue bytewiseUnicode d))"
    by (simp add: zeroColumn_def)
  have kc: "CHR '';'' \<notin> set (Name ?c) \<and> CHR '';'' \<notin> set (RawType ?c)
      \<and> (case DefaultValue ?c of None \<Rightarrow> True
          | Some d \<Rightarrow> CHR '';'' \<notin> set (cleanDefaultValue bytewiseUnicode d))"
    by (simp add: zeroColumn_def)
  have fa: "\<not> IsNullable ?a \<and> \<not> IsPrimaryKey ?a" by (simp add: zeroColumn_def)
  have fb: "IsPrimaryKey ?b" by (simp add: zeroColumn_def)
  have fc: "IsNullable ?c" by (simp add: zeroColumn_def)
  from not_null_marker_iff [of bytewiseUnicode ?a] ha fa
  have 1: "Contains (BuildGormTag bytewiseUnicode ?a) ''not null''" by blast
  from not_null_marker_iff [of bytewiseUnicode ?b] hb fb
  have 2: "\<not> Contains (BuildGormTag bytewiseUnicode ?b) ''not null''" by blast
  from not_null_marker_iff [of bytewiseUnicode ?a] ka fa
  have 3: "''not null'' \<in> set (tagAttributes (BuildGormTag bytewiseUnicode ?a))" by blast
  from not_null_marker_iff [of bytewiseUnicode ?c] kc fc
  have 4: "''not null'' \<notin> set (tagAttributes (BuildGormTag bytewiseUnicode ?c))" by blast
  from n r 1 2 sn sr 3 4 show ?thesis by blast
qed

text \<open>
  The equivalence does not hold for every column. A default value goes into the tag as
  it is: the nullable column \<open>state\<close> of type \<open>varchar(16)\<close> with the default \<open>not null\<close>
  gets the tag \<open>gorm:"column:state;type:varchar(16);default:not null"\<close>, which contains
  \<open>not null\<close>; with the default \<open>x;not null\<close> the text \<open>not null\<close> is one of the
  attributes read from the tag.
\<close>

theorem not_null_marker_iff_counterexample:
  "IsNullable (zeroColumn\<lparr>Name := ''state'', RawType := ''varchar(16)'', IsNullable := True,
       DefaultValue := Some ''not null''\<rparr>)
   \<and> BuildGormTag bytewiseUnicode
       (zeroColumn\<lparr>Name := ''state'', RawType := ''varchar(16)'', IsNullable := True,
          DefaultValue := Some ''not null''\<rparr>)
     = ''gorm:'' @ [CHR 0x22] @ ''column:state;type:varchar(16);default:not null'' @ [CHR 0x22]
   \<and> Contains (BuildGormTag bytewiseUnicode
        (zeroColumn\<lparr>Name := ''state'', RawType := ''varchar(16)'', IsNullable := True,
           DefaultValue := Some ''not null''\<rparr>)) ''not null''
   \<and> IsNullable (zeroColumn\<lparr>Name := ''state'', RawType := ''varchar(16)'', IsNullable := True,
       DefaultValue := Some ''x;not null''\<rparr>)
   \<and> tagAttributes (BuildGormTag bytewiseUnicode
        (zeroColumn\<lparr>Name := ''state'', RawType := ''varchar(16)'', IsNullable := True,
           DefaultValue := Some ''x;not null''\<rparr>))
       = [''column:state'', ''type:varchar(16)'', ''default:x'', ''not null'']"
proof -
  let ?c = "zeroColumn\<lparr>Name := ''state'', RawType := ''varchar(16)'', IsNullable := True,
       DefaultValue := Some ''not null''\<rparr>"
  let ?d = "zeroColumn\<lparr>Name := ''state'', RawType := ''varchar(16)'', IsNullable := True,
       DefaultValue := Some ''x;not null''\<rparr>"
  have 1: "IsNullable ?c" by (simp add: zeroColumn_def)
  have 2: "BuildGormTag bytewiseUnicode ?c
     = ''gorm:'' @ [CHR 0x22] @ ''column:state;type:varchar(16);default:not null'' @ [CHR 0x22]"
    by code_simp
  have 3: "Contains (BuildGormTag bytewiseUnicode ?c) ''not null''" by code_simp
  have 4: "IsNullable ?d" by (simp add: zeroColumn_def)
  have 5: "tagAttributes (BuildGormTag bytewiseUnicode ?d)
       = [''column:state'', ''type:varchar(16)'', ''default:x'', ''not null'']"
    by code_simp
  from 1 2 3 4 5 show ?thesis by blast
qed

section \<open>Properties of singularization\<close>

lemma irregular_not_ss: "map_of irregulars word = Some x \<Longrightarrow> \<not> HasSuffix word ''ss''"
proof -
  assume "map_of irregulars word = Some x"
  then have "(word, x) \<in> set irregulars" by (rule map_of_SomeD)
  then show ?thesis by (auto simp: irregulars_def HasSuffix_def)
qed

lemma singularize_ss: 
  assumes "HasSuffix word ''ss''" 
  shows "singularize word = word"
proof -
  have irr: "map_of irregulars word = None"
    using irregular_not_ss[of word] assms by (cases "map_of irregulars word") auto
  from assms have "word = take (length word - 2) word @ ''ss''"
    by (metis HasSuffix_def append_take_drop_id length_Cons list.size(3) numeral_2_eq_2)
  then obtain u where w: "word = u @ ''ss''" ..
  show ?thesis
  proof (cases u rule: rev_cases)
    case Nil
    with w irr show ?thesis by (simp add: singularize_def slice_def)
  next
    case (snoc v c)
    with w have w': "word = v @ [c, CHR ''s'', CHR ''s'']" by simp
    have n: "length word = length v + 3" by (simp add: w')
    show ?thesis using irr
      unfolding singularize_def Let_def n
      by (simp add: slice_def w')
  qed
qed

text \<open>
  Claim C9. \<open>singularize\<close> maps \<open>categories\<close> to \<open>category\<close>, \<open>boxes\<close> to \<open>box\<close> and
  \<open>people\<close> to \<open>person\<close>, and returns every word that ends in \<open>ss\<close>, such as \<open>class\<close>,
  unchanged.
\<close>

theorem singularize_samples:
  "singularize ''categories'' = ''category''
   \<and> singularize ''boxes'' = ''box''
   \<and> singularize ''people'' = ''person''
   \<and> singularize ''class'' = ''class''
   \<and> (HasSuffix word ''ss'' \<longrightarrow> singularize word = word)"
proof -
  have "singularize ''categories'' = ''category''" by code_simp
  moreover have "singularize ''boxes'' = ''box''" by code_simp
  moreover have "singularize ''people'' = ''person''" by code_simp
  moreover have "singularize ''class'' = ''class''" by code_simp
  ultimately show ?thesis using singularize_ss [of word] by blast
qed

theorem singularize_samples_witness:
  "HasSuffix ''address'' ''ss'' \<and> singularize ''address'' = ''address''"
proof -
  have h: "HasSuffix ''address'' ''ss''" by code_simp
  with singularize_samples [of "''address''"] show ?thesis by blast
qed

section \<open>Properties of the generator\<close>

lemma Generate_trace: "snd (Generate w g t) = [CallGetTableMetadata t]"
  by (auto simp: Generate_def Let_def split: sum.splits option.splits)

text \<open>A \<open>GenerateToFile\<close> that returns no error has made the directory and written the
  file: both calls were made and both succeeded, and the path returned is the path
  written.\<close>

lemma GenerateToFile_success:
  assumes "snd (fst (GenerateToFile w g t dir)) = None"
  shows "GenerateToFile w g t dir
           = ((filepath_Join w dir (ToFileName w t), None), writeTrace w g t dir)"
    and "os_MkdirAll w dir = None"
    and "os_WriteFile w (filepath_Join w dir (ToFileName w t)) (generatedBytes w g t) = None"
proof -
  obtain c e evs where gen: "Generate w g t = ((c, e), evs)"
    by (metis prod.collapse)
  from Generate_trace [of w g t] gen have evs: "evs = [CallGetTableMetadata t]" by simp
  from gen have b: "generatedBytes w g t = (case c of None \<Rightarrow> [] | Some b \<Rightarrow> b)"
    by (simp add: generatedBytes_def)
  from assms gen have e: "e = None"
    by (cases e) (simp_all add: GenerateToFile_def)
  from assms gen e show "os_MkdirAll w dir = None"
    by (cases "os_MkdirAll w dir") (simp_all add: GenerateToFile_def)
  with assms gen e b
  show w: "os_WriteFile w (filepath_Join w dir (ToFileName w t)) (generatedBytes w g t) = None"
    by (cases "os_WriteFile w (filepath_Join w dir (ToFileName w t)) (generatedBytes w g t)")
      (simp_all add: GenerateToFile_def Let_def)
  from gen e evs b w \<open>os_MkdirAll w dir = None\<close>
  show "GenerateToFile w g t dir
           = ((filepath_Join w dir (ToFileName w t), None), writeTrace w g t dir)"
    by (simp add: GenerateToFile_def Let_def writeTrace_def)
qed

text \<open>Whatever happens, the calls of \<open>GenerateToFile\<close> are an initial part of those three
  calls, and the first of them reads the metadata of the table.\<close>

lemma GenerateToFile_trace:
  "prefix (snd (GenerateToFile w g t dir)) (writeTrace w g t dir)
   \<and> (\<exists>evs. snd (GenerateToFile w g t dir) = CallGetTableMetadata t # evs)"
proof -
  obtain c e evs where gen: "Generate w g t = ((c, e), evs)"
    by (metis prod.collapse)
  from Generate_trace [of w g t] gen have evs: "evs = [CallGetTableMetadata t]" by simp
  from gen have b: "generatedBytes w g t = (case c of None \<Rightarrow> [] | Some b \<Rightarrow> b)"
    by (simp add: generatedBytes_def)
  from gen evs b show ?thesis
    by (auto simp: GenerateToFile_def Let_def writeTrace_def split: option.splits)
qed

lemma GenerateToFile_metadata_failure:
  "db_GetTableMetadata w t = Inl e \<Longrightarrow>
     GenerateToFile w g t dir
       = (([], Some (Errorf ''failed to get table metadata'' e)), [CallGetTableMetadata t])"
  by (simp add: GenerateToFile_def Generate_def)

lemma tablesAttempted_append:
  "tablesAttempted (xs @ ys) = tablesAttempted xs @ tablesAttempted ys"
  by (induction xs rule: tablesAttempted.induct) auto

lemma tablesAttempted_GenerateToFile: "tablesAttempted (snd (GenerateToFile w g t dir)) = [t]"
proof -
  obtain c e evs where gen: "Generate w g t = ((c, e), evs)"
    by (metis prod.collapse)
  from Generate_trace [of w g t] gen have evs: "evs = [CallGetTableMetadata t]" by simp
  from gen evs show ?thesis
    by (auto simp: GenerateToFile_def Let_def split: option.splits)
qed

lemma tablesAttempted_writeTraces:
  "tablesAttempted (concat (map (\<lambda>(k, t). writeTrace (ws k) g t dir) (enumerate n ts))) = ts"
  by (induction ts arbitrary: n) (simp_all add: writeTrace_def)

text \<open>The loop passes the tables that succeed one by one, in order: it adds the path of
  each to the paths, its three calls to the trace, and goes on with the rest.\<close>

lemma GenerateAll_loop_pass:
  assumes "\<forall>(k, t) \<in> set (enumerate n ok). snd (fst (GenerateToFile (ws k) g t dir)) = None"
  shows "GenerateAll_loop ws g dir n (ok @ rest) acc
         = (fst (GenerateAll_loop ws g dir (n + length ok) rest
                   (acc @ map (\<lambda>(k, t). filepath_Join (ws k) dir (ToFileName (ws k) t))
                            (enumerate n ok))),
            concat (map (\<lambda>(k, t). writeTrace (ws k) g t dir) (enumerate n ok))
              @ snd (GenerateAll_loop ws g dir (n + length ok) rest
                       (acc @ map (\<lambda>(k, t). filepath_Join (ws k) dir (ToFileName (ws k) t))
                                (enumerate n ok))))"
  using assms
proof (induction ok arbitrary: n acc)
  case Nil
  then show ?case by simp
next
  case (Cons t ts)
  from Cons.prems have ok: "snd (fst (GenerateToFile (ws n) g t dir)) = None" by simp
  from Cons.prems
  have rest: "\<forall>(k, t) \<in> set (enumerate (Suc n) ts).
      snd (fst (GenerateToFile (ws k) g t dir)) = None"
    by simp
  note gf = GenerateToFile_success(1) [OF ok]
  from Cons.IH [OF rest, of "acc @ [filepath_Join (ws n) dir (ToFileName (ws n) t)]"] gf
  show ?case by (simp split: prod.splits)
qed

lemma GenerateAll_loop_stop:
  assumes "\<forall>(k, t) \<in> set (enumerate 0 ok). snd (fst (GenerateToFile (ws k) g t dir)) = None"
    and "snd (fst (GenerateToFile (ws (length ok)) g bad dir)) = Some err"
  shows "GenerateAll_loop ws g dir 0 (ok @ bad # later) []
         = ((map (\<lambda>(k, t). filepath_Join (ws k) dir (ToFileName (ws k) t)) (enumerate 0 ok),
             Some (Errorf (''failed to generate '' @ bad) err)),
            concat (map (\<lambda>(k, t). writeTrace (ws k) g t dir) (enumerate 0 ok))
              @ snd (GenerateToFile (ws (length ok)) g bad dir))"
proof -
  obtain p evs where gf: "GenerateToFile (ws (length ok)) g bad dir = ((p, Some err), evs)"
    using assms(2) by (metis prod.collapse)
  then have "GenerateAll_loop ws g dir (length ok) (bad # later) acc
      = ((acc, Some (Errorf (''failed to generate '' @ bad) err)),
         snd (GenerateToFile (ws (length ok)) g bad dir))" for acc
    by simp
  with GenerateAll_loop_pass [OF assms(1), of "bad # later" "[]"] show ?thesis by simp
qed

lemma GenerateAll_loop_all:
  assumes "\<forall>(k, t) \<in> set (enumerate 0 ts). snd (fst (GenerateToFile (ws k) g t dir)) = None"
  shows "GenerateAll_loop ws g dir 0 ts []
         = ((map (\<lambda>(k, t). filepath_Join (ws k) dir (ToFileName (ws k) t)) (enumerate 0 ts),
             None),
            concat (map (\<lambda>(k, t). writeTrace (ws k) g t dir) (enumerate 0 ts)))"
  using GenerateAll_loop_pass [OF assms, of "[]" "[]"] by simp

lemma successes_written:
  assumes "\<forall>(k, t) \<in> set (enumerate 0 ok). snd (fst (GenerateToFile (ws k) g t dir)) = None"
  shows "\<forall>(k, t) \<in> set (enumerate 0 ok).
           os_MkdirAll (ws k) dir = None
           \<and> os_WriteFile (ws k) (filepath_Join (ws k) dir (ToFileName (ws k) t))
               (generatedBytes (ws k) g t) = None"
  using assms GenerateToFile_success(2,3) by fastforce

text \<open>
  Claim C5. \<open>GenerateAll\<close> takes the tables in the order in which \<open>GetTables\<close> returns
  them. At the first table for which \<open>GenerateToFile\<close> fails it stops. It returns the
  paths of the tables before that one, in order, with the error wrapped as
  \<open>failed to generate <table>\<close>. Each returned path was written: its directory and file
  calls were made and succeeded. The calls to the outside world are the listing of the
  tables, then for each table before the failing one the reading of its metadata, the
  making of the directory and the writing of its file, then the calls of the failing
  table, which begin with the reading of its metadata and are an initial part of its
  three calls; nothing is called for a later table. When no table fails, every path is
  returned with no error. With three tables of which the second has no metadata, the
  first table's path alone comes back with the error; the calls are the listing, the
  three calls of the first table and the metadata call of the second. All this holds
  whatever the outside world answers for each table at the time of its turn.
\<close>

theorem GenerateAll_stops_at_first_failure:
  "(db_GetTables w = Inr (ok @ bad # later)
      \<and> (\<forall>(k, t) \<in> set (enumerate 0 ok). snd (fst (GenerateToFile (ws k) g t dir)) = None)
      \<and> snd (fst (GenerateToFile (ws (length ok)) g bad dir)) = Some err
    \<longrightarrow> fst (GenerateAll w ws g dir)
          = (map (\<lambda>(k, t). filepath_Join (ws k) dir (ToFileName (ws k) t)) (enumerate 0 ok),
             Some (Errorf (''failed to generate '' @ bad) err))
        \<and> snd (GenerateAll w ws g dir)
            = CallGetTables
                # concat (map (\<lambda>(k, t). writeTrace (ws k) g t dir) (enumerate 0 ok))
                @ snd (GenerateToFile (ws (length ok)) g bad dir)
        \<and> (\<forall>(k, t) \<in> set (enumerate 0 ok).
              os_MkdirAll (ws k) dir = None
              \<and> os_WriteFile (ws k) (filepath_Join (ws k) dir (ToFileName (ws k) t))
                  (generatedBytes (ws k) g t) = None)
        \<and> prefix (snd (GenerateToFile (ws (length ok)) g bad dir))
            (writeTrace (ws (length ok)) g bad dir)
        \<and> (\<exists>evs. snd (GenerateToFile (ws (length ok)) g bad dir)
                    = CallGetTableMetadata bad # evs)
        \<and> tablesAttempted (snd (GenerateAll w ws g dir)) = ok @ [bad])
   \<and> (db_GetTables w = Inr tables
      \<and> (\<forall>(k, t) \<in> set (enumerate 0 tables).
            snd (fst (GenerateToFile (ws k) g t dir)) = None)
    \<longrightarrow> fst (GenerateAll w ws g dir)
          = (map (\<lambda>(k, t). filepath_Join (ws k) dir (ToFileName (ws k) t))
               (enumerate 0 tables), None)
        \<and> snd (GenerateAll w ws g dir)
            = CallGetTables
                # concat (map (\<lambda>(k, t). writeTrace (ws k) g t dir) (enumerate 0 tables))
        \<and> tablesAttempted (snd (GenerateAll w ws g dir)) = tables)
   \<and> (db_GetTables w = Inr [t1, t2, t3]
      \<and> snd (fst (GenerateToFile (ws 0) g t1 dir)) = None
      \<and> db_GetTableMetadata (ws 1) t2 = Inl e
    \<longrightarrow> fst (GenerateAll w ws g dir)
          = ([filepath_Join (ws 0) dir (ToFileName (ws 0) t1)],
             Some (Errorf (''failed to generate '' @ t2)
                     (Errorf ''failed to get table metadata'' e)))
        \<and> snd (GenerateAll w ws g dir)
            = [CallGetTables, CallGetTableMetadata t1, CallMkdirAll dir,
               CallWriteFile (filepath_Join (ws 0) dir (ToFileName (ws 0) t1))
                 (generatedBytes (ws 0) g t1),
               CallGetTableMetadata t2]
        \<and> os_MkdirAll (ws 0) dir = None
        \<and> os_WriteFile (ws 0) (filepath_Join (ws 0) dir (ToFileName (ws 0) t1))
            (generatedBytes (ws 0) g t1) = None)"
proof (intro conjI impI)
  assume h: "db_GetTables w = Inr (ok @ bad # later)
      \<and> (\<forall>(k, t) \<in> set (enumerate 0 ok). snd (fst (GenerateToFile (ws k) g t dir)) = None)
      \<and> snd (fst (GenerateToFile (ws (length ok)) g bad dir)) = Some err"
  then have t: "db_GetTables w = Inr (ok @ bad # later)"
    and s: "\<forall>(k, t) \<in> set (enumerate 0 ok). snd (fst (GenerateToFile (ws k) g t dir)) = None"
    and f: "snd (fst (GenerateToFile (ws (length ok)) g bad dir)) = Some err"
    by simp_all
  note loop = GenerateAll_loop_stop [OF s f, of later]
  from t loop
  show "fst (GenerateAll w ws g dir)
          = (map (\<lambda>(k, t). filepath_Join (ws k) dir (ToFileName (ws k) t)) (enumerate 0 ok),
             Some (Errorf (''failed to generate '' @ bad) err))"
    by (simp add: GenerateAll_def)
  from t loop
  show tr: "snd (GenerateAll w ws g dir)
            = CallGetTables
                # concat (map (\<lambda>(k, t). writeTrace (ws k) g t dir) (enumerate 0 ok))
                @ snd (GenerateToFile (ws (length ok)) g bad dir)"
    by (simp add: GenerateAll_def)
  from successes_written [OF s]
  show "\<forall>(k, t) \<in> set (enumerate 0 ok).
              os_MkdirAll (ws k) dir = None
              \<and> os_WriteFile (ws k) (filepath_Join (ws k) dir (ToFileName (ws k) t))
                  (generatedBytes (ws k) g t) = None" .
  from GenerateToFile_trace [of "ws (length ok)" g bad dir]
  show "prefix (snd (GenerateToFile (ws (length ok)) g bad dir))
            (writeTrace (ws (length ok)) g bad dir)"
    and "\<exists>evs. snd (GenerateToFile (ws (length ok)) g bad dir)
                    = CallGetTableMetadata bad # evs"
    by simp_all
  show "tablesAttempted (snd (GenerateAll w ws g dir)) = ok @ [bad]"
    unfolding tr
    by (simp add: tablesAttempted_append tablesAttempted_writeTraces
        tablesAttempted_GenerateToFile)
next
  assume h: "db_GetTables w = Inr tables
      \<and> (\<forall>(k, t) \<in> set (enumerate 0 tables).
            snd (fst (GenerateToFile (ws k) g t dir)) = None)"
  then have t: "db_GetTables w = Inr tables"
    and s: "\<forall>(k, t) \<in> set (enumerate 0 tables).
              snd (fst (GenerateToFile (ws k) g t dir)) = None"
    by simp_all
  note loop = GenerateAll_loop_all [OF s]
  from t loop
  show "fst (GenerateAll w ws g dir)
          = (map (\<lambda>(k, t). filepath_Join (ws k) dir (ToFileName (ws k) t))
               (enumerate 0 tables), None)"
    by (simp add: GenerateAll_def)
  from t loop
  show tr: "snd (GenerateAll w ws g dir)
            = CallGetTables
                # concat (map (\<lambda>(k, t). writeTrace (ws k) g t dir) (enumerate 0 tables))"
    by (simp add: GenerateAll_def)
  show "tablesAttempted (snd (GenerateAll w ws g dir)) = tables"
    unfolding tr by (simp add: tablesAttempted_writeTraces)
next
  assume h: "db_GetTables w = Inr [t1, t2, t3]
      \<and> snd (fst (GenerateToFile (ws 0) g t1 dir)) = None
      \<and> db_GetTableMetadata (ws 1) t2 = Inl e"
  then have t: "db_GetTables w = Inr ([t1] @ t2 # [t3])"
    and s1: "snd (fst (GenerateToFile (ws 0) g t1 dir)) = None"
    and m: "db_GetTableMetadata (ws 1) t2 = Inl e"
    by simp_all
  from s1 have s: "\<forall>(k, t) \<in> set (enumerate 0 [t1]).
      snd (fst (GenerateToFile (ws k) g t dir)) = None"
    by simp
  note bad = GenerateToFile_metadata_failure [OF m, of g dir]
  from bad have f: "snd (fst (GenerateToFile (ws (length [t1])) g t2 dir))
      = Some (Errorf ''failed to get table metadata'' e)"
    by simp
  note loop = GenerateAll_loop_stop [OF s f, of "[t3]"]
  from t loop
  show "fst (GenerateAll w ws g dir)
          = ([filepath_Join (ws 0) dir (ToFileName (ws 0) t1)],
             Some (Errorf (''failed to generate '' @ t2)
                     (Errorf ''failed to get table metadata'' e)))"
    by (simp add: GenerateAll_def)
  from t loop bad
  show "snd (GenerateAll w ws g dir)
            = [CallGetTables, CallGetTableMetadata t1, CallMkdirAll dir,
               CallWriteFile (filepath_Join (ws 0) dir (ToFileName (ws 0) t1))
                 (generatedBytes (ws 0) g t1),
               CallGetTableMetadata t2]"
    by (simp add: GenerateAll_def writeTrace_def)
  from GenerateToFile_success(2,3) [OF s1]
  show "os_MkdirAll (ws 0) dir = None"
    and "os_WriteFile (ws 0) (filepath_Join (ws 0) dir (ToFileName (ws 0) t1))
            (generatedBytes (ws 0) g t1) = None"
    by simp_all
qed

theorem GenerateAll_stops_at_first_failure_witness:
  "db_GetTables sampleWorld = Inr [''items'', ''orders'', ''users'']
   \<and> snd (fst (GenerateToFile sampleWorld NewGenerator ''items'' ''out'')) = None
   \<and> db_GetTableMetadata sampleWorld ''orders'' = Inl (New ''failed to query columns'')
   \<and> GenerateAll sampleWorld (\<lambda>k. sampleWorld) NewGenerator ''out''
       = (([''out/items.go''],
           Some (Errorf ''failed to generate orders''
                   (Errorf ''failed to get table metadata'' (New ''failed to query columns'')))),
          [CallGetTables, CallGetTableMetadata ''items'', CallMkdirAll ''out'',
           CallWriteFile ''out/items.go'' ''package models type Item'',
           CallGetTableMetadata ''orders''])
   \<and> snd (fst (GenerateToFile (sampleWorlds 0) NewGenerator ''items'' ''out'')) = None
   \<and> snd (fst (GenerateToFile (sampleWorlds 1) NewGenerator ''products'' ''out''))
       = Some (Errorf ''failed to create output directory'' (New ''permission denied''))
   \<and> GenerateAll (sampleWorld\<lparr>db_GetTables := Inr [''items'', ''products'', ''users'']\<rparr>)
         sampleWorlds NewGenerator ''out''
       = (([''out/items.go''],
           Some (Errorf ''failed to generate products''
                   (Errorf ''failed to create output directory'' (New ''permission denied'')))),
          [CallGetTables, CallGetTableMetadata ''items'', CallMkdirAll ''out'',
           CallWriteFile ''out/items.go'' ''package models type Item'',
           CallGetTableMetadata ''products'', CallMkdirAll ''out''])
   \<and> GenerateAll (sampleWorld\<lparr>db_GetTables := Inr [''items'', ''products'']\<rparr>)
         (\<lambda>k. sampleWorld) NewGenerator ''out''
       = (([''out/items.go'', ''out/products.go''], None),
          [CallGetTables, CallGetTableMetadata ''items'', CallMkdirAll ''out'',
           CallWriteFile ''out/items.go'' ''package models type Item'',
           CallGetTableMetadata ''products'', CallMkdirAll ''out'',
           CallWriteFile ''out/products.go'' ''package models type Product''])"
proof -
  let ?w3 = "sampleWorld\<lparr>db_GetTables := Inr [''items'', ''products'', ''users'']\<rparr>"
  let ?w2 = "sampleWorld\<lparr>db_GetTables := Inr [''items'', ''products'']\<rparr>"
  let ?same = "\<lambda>k::nat. sampleWorld"
  let ?err = "Errorf ''failed to create output directory'' (New ''permission denied'')"
  have a1: "db_GetTables sampleWorld = Inr [''items'', ''orders'', ''users'']"
    by (simp add: sampleWorld_def)
  have a2: "snd (fst (GenerateToFile sampleWorld NewGenerator ''items'' ''out'')) = None"
    by code_simp
  have a3: "db_GetTableMetadata sampleWorld ''orders'' = Inl (New ''failed to query columns'')"
    by (simp add: sampleWorld_def)
  have p1: "filepath_Join sampleWorld ''out'' (ToFileName sampleWorld ''items'') = ''out/items.go''"
    by (simp add: sampleWorld_def ToFileName_def)
  have p2: "filepath_Join sampleWorld ''out'' (ToFileName sampleWorld ''products'')
      = ''out/products.go''"
    by (simp add: sampleWorld_def ToFileName_def)
  have g1: "generatedBytes sampleWorld NewGenerator ''items'' = ''package models type Item''"
    by code_simp
  have g2: "generatedBytes sampleWorld NewGenerator ''products''
      = ''package models type Product''"
    by code_simp
  have s0: "sampleWorlds 0 = sampleWorld" by (simp add: sampleWorlds_def)
  have b1: "snd (fst (GenerateToFile (sampleWorlds 0) NewGenerator ''items'' ''out'')) = None"
    using a2 s0 by simp
  have b2: "snd (fst (GenerateToFile (sampleWorlds 1) NewGenerator ''products'' ''out''))
      = Some ?err"
    by code_simp
  have b3: "snd (GenerateToFile (sampleWorlds 1) NewGenerator ''products'' ''out'')
      = [CallGetTableMetadata ''products'', CallMkdirAll ''out'']"
    by code_simp
  have b2': "snd (fst (GenerateToFile (sampleWorlds (Suc 0)) NewGenerator ''products'' ''out''))
      = Some ?err"
    using b2 by simp
  have b3': "snd (GenerateToFile (sampleWorlds (Suc 0)) NewGenerator ''products'' ''out'')
      = [CallGetTableMetadata ''products'', CallMkdirAll ''out'']"
    using b3 by simp
  have c2: "snd (fst (GenerateToFile sampleWorld NewGenerator ''products'' ''out'')) = None"
    by code_simp
  from GenerateAll_stops_at_first_failure [of sampleWorld _ _ _ ?same NewGenerator "''out''" _ _
      "''items''" "''orders''" "''users''" "New ''failed to query columns''"] a1 a2 a3
  have r1: "GenerateAll sampleWorld ?same NewGenerator ''out''
       = (([''out/items.go''],
           Some (Errorf ''failed to generate orders''
                   (Errorf ''failed to get table metadata'' (New ''failed to query columns'')))),
          [CallGetTables, CallGetTableMetadata ''items'', CallMkdirAll ''out'',
           CallWriteFile ''out/items.go'' ''package models type Item'',
           CallGetTableMetadata ''orders''])"
    by (simp add: prod_eq_iff p1 g1)
  from GenerateAll_stops_at_first_failure [of ?w3 "[''items'']" "''products''" "[''users'']"
      sampleWorlds NewGenerator "''out''" ?err] b1 b2'
  have r2: "GenerateAll ?w3 sampleWorlds NewGenerator ''out''
       = (([''out/items.go''], Some (Errorf ''failed to generate products'' ?err)),
          [CallGetTables, CallGetTableMetadata ''items'', CallMkdirAll ''out'',
           CallWriteFile ''out/items.go'' ''package models type Item'',
           CallGetTableMetadata ''products'', CallMkdirAll ''out''])"
    by (simp add: prod_eq_iff s0 p1 g1 b3' writeTrace_def)
  from GenerateAll_stops_at_first_failure [of ?w2 _ _ _ ?same NewGenerator "''out''" _
      "[''items'', ''products'']"] a2 c2
  have r3: "GenerateAll ?w2 ?same NewGenerator ''out''
       = (([''out/items.go'', ''out/products.go''], None),
          [CallGetTables, CallGetTableMetadata ''items'', CallMkdirAll ''out'',
           CallWriteFile ''out/items.go'' ''package models type Item'',
           CallGetTableMetadata ''products'', CallMkdirAll ''out'',
           CallWriteFile ''out/products.go'' ''package models type Product''])"
    by (simp add: prod_eq_iff p1 p2 g1 g2 writeTrace_def)
  from a1 a2 a3 r1 b1 b2 r2 r3 show ?thesis by blast
qed

text \<open>
  Claim C6. When the metadata is read, the template is parsed and rendered, and
  \<open>go/format\<close> rejects the rendered text, \<open>Generate\<close> returns the rendered bytes as they
  are together with the error \<open>go/format failed (returning unformatted)\<close> wrapping the
  formatter's error.
\<close>

theorem Generate_format_failure_returns_raw:
  "db_GetTableMetadata w tableName = Inr meta
    \<and> template_Parse w = None
    \<and> template_Execute w (buildTemplateData (go_unicode w) g tableName meta) = Inr raw
    \<and> format_Source w raw = Inl e
   \<longrightarrow> fst (Generate w g tableName)
        = (Some raw, Some (Errorf ''go/format failed (returning unformatted)'' e))"
  by (simp add: Generate_def)

theorem Generate_format_failure_returns_raw_witness:
  "db_GetTableMetadata sampleWorld ''users'' = Inr (sampleTable ''users'')
    \<and> template_Parse sampleWorld = None
    \<and> template_Execute sampleWorld (buildTemplateData (go_unicode sampleWorld) NewGenerator ''users''
          (sampleTable ''users''))
        = Inr ''package models type User''
    \<and> format_Source sampleWorld ''package models type User'' = Inl (New ''expected declaration'')
    \<and> fst (Generate sampleWorld NewGenerator ''users'')
        = (Some ''package models type User'',
           Some (Errorf ''go/format failed (returning unformatted)'' (New ''expected declaration'')))"
proof -
  have h1: "db_GetTableMetadata sampleWorld ''users'' = Inr (sampleTable ''users'')"
    by (simp add: sampleWorld_def)
  have h2: "template_Parse sampleWorld = None"
    by (simp add: sampleWorld_def)
  have h3: "template_Execute sampleWorld (buildTemplateData (go_unicode sampleWorld) NewGenerator ''users''
          (sampleTable ''users''))
        = Inr ''package models type User''"
    by code_simp
  have h4: "format_Source sampleWorld ''package models type User'' = Inl (New ''expected declaration'')"
    by (simp add: sampleWorld_def)
  from Generate_format_failure_returns_raw [of sampleWorld "''users''" "sampleTable ''users''"
      NewGenerator "''package models type User''" "New ''expected declaration''"] h1 h2 h3 h4
  show ?thesis by blast
qed

section \<open>Properties of the application session\<close>

lemma reachable_session_inv: "reachable a \<Longrightarrow> session_inv a"
proof (induction rule: reachable.induct)
  case reach_NewApp
  show ?case by (simp add: session_inv_def NewApp_def)
next
  case (reach_Startup a loaded)
  then show ?case by (auto simp: session_inv_def Startup_def split: sum.splits)
next
  case (reach_ConnectDB a w cfg)
  then show ?case
    by (auto simp: session_inv_def ConnectDB_def split: sum.splits option.splits if_splits)
next
  case (reach_DisconnectDB a w)
  then show ?case
    by (auto simp: session_inv_def DisconnectDB_def split: option.splits if_splits)
next
  case (reach_SetSchema a w schema)
  then show ?case
    by (auto simp: session_inv_def SetSchema_def split: option.splits if_splits Introspector.splits)
qed

lemma failed_ConnectDB_state:
  "fst (fst (ConnectDB w cfg a)) \<noteq> None \<Longrightarrow>
     snd (fst (ConnectDB w cfg a))
       = (if introspector a \<noteq> None
          then a\<lparr>introspector := None, generator := None, connected := False\<rparr> else a)"
  by (auto simp: ConnectDB_def split: sum.splits option.splits if_splits)

lemma not_connected_operations:
  "\<not> connected a \<Longrightarrow>
     FetchTables w a = (([], Some ErrNotConnected), [])
     \<and> FetchTableSchema w tableName a = (([], Some ErrNotConnected), [])
     \<and> GetCodePreview w tableName a = (([], Some ErrNotConnected), [])
     \<and> SaveCodeToFile w tableName filePath a = (Some ErrNotConnected, [])
     \<and> SaveAllToDirectory w ws outputDir a = (([], Some ErrNotConnected), [])
     \<and> FetchSchemas w a = (([], Some ErrNotConnected), [])
     \<and> SetSchema w schema a = ((Some ErrNotConnected, a), [])"
  by (simp add: FetchTables_def FetchTableSchema_def GetCodePreview_def SaveCodeToFile_def
      SaveAllToDirectory_def FetchSchemas_def SetSchema_def)

text \<open>
  Claim C7. In every reachable state of the session, the flag \<open>connected\<close> is set exactly
  when an introspector and a generator are held. A \<open>ConnectDB\<close> call that returns an error
  leaves the session disconnected: the flag is false and neither an introspector nor a
  generator is kept. While the flag is false, \<open>FetchTables\<close>, \<open>FetchTableSchema\<close>,
  \<open>GetCodePreview\<close>, \<open>SaveCodeToFile\<close>, \<open>SaveAllToDirectory\<close>, \<open>FetchSchemas\<close> and
  \<open>SetSchema\<close> return the error \<open>database not connected\<close> and call nothing outside: their
  trace is empty, whatever the outside world would answer.
\<close>

theorem disconnected_after_failed_connect:
  "reachable a \<longrightarrow>
     (connected a \<longleftrightarrow> introspector a \<noteq> None) \<and> (connected a \<longleftrightarrow> generator a \<noteq> None)
     \<and> (fst (fst (ConnectDB w cfg a)) \<noteq> None \<longrightarrow>
          \<not> connected (snd (fst (ConnectDB w cfg a)))
          \<and> introspector (snd (fst (ConnectDB w cfg a))) = None
          \<and> generator (snd (fst (ConnectDB w cfg a))) = None)
     \<and> (\<not> connected a \<longrightarrow>
          FetchTables w' a = (([], Some ErrNotConnected), [])
          \<and> FetchTableSchema w' tableName a = (([], Some ErrNotConnected), [])
          \<and> GetCodePreview w' tableName a = (([], Some ErrNotConnected), [])
          \<and> SaveCodeToFile w' tableName filePath a = (Some ErrNotConnected, [])
          \<and> SaveAllToDirectory w' ws outputDir a = (([], Some ErrNotConnected), [])
          \<and> FetchSchemas w' a = (([], Some ErrNotConnected), [])
          \<and> SetSchema w' schema a = ((Some ErrNotConnected, a), []))"
proof (intro impI conjI)
  assume r: "reachable a"
  from reachable_session_inv [OF r]
  show "connected a \<longleftrightarrow> introspector a \<noteq> None" and "connected a \<longleftrightarrow> generator a \<noteq> None"
    by (auto simp: session_inv_def)
  {
    assume f: "fst (fst (ConnectDB w cfg a)) \<noteq> None"
    from failed_ConnectDB_state [OF f] reachable_session_inv [OF r]
    show "\<not> connected (snd (fst (ConnectDB w cfg a)))"
      and "introspector (snd (fst (ConnectDB w cfg a))) = None"
      and "generator (snd (fst (ConnectDB w cfg a))) = None"
      by (auto simp: session_inv_def)
  }
  {
    assume d: "\<not> connected a"
    from not_connected_operations [OF d]
    show "FetchTables w' a = (([], Some ErrNotConnected), [])"
      and "FetchTableSchema w' tableName a = (([], Some ErrNotConnected), [])"
      and "GetCodePreview w' tableName a = (([], Some ErrNotConnected), [])"
      and "SaveCodeToFile w' tableName filePath a = (Some ErrNotConnected, [])"
      and "SaveAllToDirectory w' ws outputDir a = (([], Some ErrNotConnected), [])"
      and "FetchSchemas w' a = (([], Some ErrNotConnected), [])"
      and "SetSchema w' schema a = ((Some ErrNotConnected, a), [])"
      by blast+
  }
qed

theorem disconnected_after_failed_connect_witness:
  "reachable (snd (fst (ConnectDB sampleWorld (sampleConfig ''shop'') NewApp)))
   \<and> connected (snd (fst (ConnectDB sampleWorld (sampleConfig ''shop'') NewApp)))
   \<and> fst (fst (ConnectDB sampleWorld (sampleConfig ''nowhere'')
        (snd (fst (ConnectDB sampleWorld (sampleConfig ''shop'') NewApp))))) \<noteq> None
   \<and> \<not> connected (snd (fst (ConnectDB sampleWorld (sampleConfig ''nowhere'')
        (snd (fst (ConnectDB sampleWorld (sampleConfig ''shop'') NewApp))))))
   \<and> FetchTables sampleWorld (snd (fst (ConnectDB sampleWorld (sampleConfig ''nowhere'')
        (snd (fst (ConnectDB sampleWorld (sampleConfig ''shop'') NewApp))))))
       = (([], Some ErrNotConnected), [])"
proof -
  let ?a1 = "snd (fst (ConnectDB sampleWorld (sampleConfig ''shop'') NewApp))"
  let ?a2 = "snd (fst (ConnectDB sampleWorld (sampleConfig ''nowhere'') ?a1))"
  have r1: "reachable ?a1" by (rule reach_ConnectDB [OF reach_NewApp])
  have r2: "reachable ?a2" by (rule reach_ConnectDB [OF r1])
  have c1: "connected ?a1" by code_simp
  have f: "fst (fst (ConnectDB sampleWorld (sampleConfig ''nowhere'') ?a1)) \<noteq> None"
    by code_simp
  from disconnected_after_failed_connect [of ?a1 sampleWorld "sampleConfig ''nowhere''"] r1 f
  have d: "\<not> connected ?a2" by blast
  from disconnected_after_failed_connect [of ?a2 _ _ sampleWorld] r2 d
  have "FetchTables sampleWorld ?a2 = (([], Some ErrNotConnected), [])" by blast
  with r1 c1 f d show ?thesis by blast
qed

section \<open>Properties of the enum value extraction\<close>

text \<open>The matcher finds a match exactly when the text holds the pattern, and what it
  returns is the group of a match.\<close>

lemma reCloses_iff:
  "reCloses r \<longleftrightarrow> (\<exists>ws post. r = ws @ CHR '')'' # post \<and> list_all isReSpace ws)"
proof
  assume c: "reCloses r"
  then obtain rest where d: "dropWhile isReSpace r = CHR '')'' # rest"
    by (auto simp: reCloses_def split: list.splits)
  have "r = takeWhile isReSpace r @ dropWhile isReSpace r" by simp
  with d have "r = takeWhile isReSpace r @ CHR '')'' # rest" by simp
  moreover have "list_all isReSpace (takeWhile isReSpace r)"
    by (simp add: list_all_iff) (meson set_takeWhileD)
  ultimately show "\<exists>ws post. r = ws @ CHR '')'' # post \<and> list_all isReSpace ws" by blast
next
  assume "\<exists>ws post. r = ws @ CHR '')'' # post \<and> list_all isReSpace ws"
  then obtain ws post where r: "r = ws @ CHR '')'' # post" and w: "list_all isReSpace ws"
    by blast
  have p: "\<not> isReSpace CHR '')''" by (simp add: isReSpace_def)
  from w have "dropWhile isReSpace (ws @ CHR '')'' # post) = dropWhile isReSpace (CHR '')'' # post)"
    by (intro dropWhile_append2) (simp add: list_all_iff)
  with p show "reCloses r" by (simp add: reCloses_def r)
qed

lemma reGroup_sound:
  "reGroup r n = Some v \<Longrightarrow> \<exists>m. 1 \<le> m \<and> m \<le> n \<and> v = take m r \<and> reCloses (drop m r)"
proof (induction n)
  case 0
  then show ?case by simp
next
  case (Suc n)
  show ?case
  proof (cases "reCloses (drop (Suc n) r)")
    case True
    with Suc.prems have "v = take (Suc n) r" by simp
    with True show ?thesis by (intro exI [of _ "Suc n"]) simp
  next
    case False
    with Suc.prems have "reGroup r n = Some v" by simp
    from Suc.IH [OF this] obtain m where "1 \<le> m" and "m \<le> n" and "v = take m r"
      and "reCloses (drop m r)"
      by blast
    then show ?thesis by (intro exI [of _ m]) simp
  qed
qed

lemma reGroup_complete:
  "1 \<le> m \<Longrightarrow> m \<le> n \<Longrightarrow> reCloses (drop m r) \<Longrightarrow> reGroup r n \<noteq> None"
proof (induction n)
  case 0
  then show ?case by simp
next
  case (Suc n)
  show ?case
  proof (cases "reCloses (drop (Suc n) r)")
    case True
    then show ?thesis by simp
  next
    case False
    with Suc.prems have "m \<noteq> Suc n" by auto
    with Suc.prems have "m \<le> n" by simp
    from Suc.IH [OF Suc.prems(1) this Suc.prems(3)] False show ?thesis by simp
  qed
qed

lemma reAfterParen_sound:
  "reAfterParen r k = Some v \<Longrightarrow>
     \<exists>j. j \<le> k \<and> reGroup (drop j r) (length (takeWhile isReDot (drop j r))) = Some v"
proof (induction k)
  case 0
  then show ?case by simp
next
  case (Suc k)
  show ?case
  proof (cases "reGroup (drop (Suc k) r) (length (takeWhile isReDot (drop (Suc k) r)))")
    case None
    with Suc.prems have "reAfterParen r k = Some v" by simp
    from Suc.IH [OF this] obtain j where "j \<le> k"
      and "reGroup (drop j r) (length (takeWhile isReDot (drop j r))) = Some v"
      by blast
    then show ?thesis by (intro exI [of _ j]) simp
  next
    case (Some w)
    with Suc.prems have "w = v" by simp
    with Some show ?thesis by (intro exI [of _ "Suc k"]) simp
  qed
qed

lemma reAfterParen_complete:
  "j \<le> k \<Longrightarrow> reGroup (drop j r) (length (takeWhile isReDot (drop j r))) \<noteq> None \<Longrightarrow>
     reAfterParen r k \<noteq> None"
proof (induction k)
  case 0
  then show ?case by simp
next
  case (Suc k)
  show ?case
  proof (cases "reGroup (drop (Suc k) r) (length (takeWhile isReDot (drop (Suc k) r)))")
    case None
    with Suc.prems have "j \<noteq> Suc k" by auto
    with Suc.prems have "j \<le> k" by simp
    from Suc.IH [OF this Suc.prems(2)] None show ?thesis by simp
  next
    case (Some w)
    then show ?thesis by simp
  qed
qed

lemma list_all_take_takeWhile:
  assumes "n \<le> length (takeWhile P xs)"
  shows "list_all P (take n xs)"
proof -
  have "take n xs = take n (takeWhile P xs @ dropWhile P xs)" by simp
  also have "\<dots> = take n (takeWhile P xs)" using assms by (simp del: takeWhile_dropWhile_id)
  finally have "set (take n xs) \<subseteq> set (takeWhile P xs)" by (simp add: set_take_subset)
  then show ?thesis by (auto simp: list_all_iff dest: set_takeWhileD)
qed

text \<open>The part of the pattern after the opening parenthesis, as a description.\<close>

lemma afterParen_sound:
  assumes "reAfterParen r k = Some v" and "k \<le> length (takeWhile isReSpace r)"
  shows "\<exists>ws2 ws3 post. r = ws2 @ v @ ws3 @ '')'' @ post
           \<and> list_all isReSpace ws2 \<and> v \<noteq> [] \<and> list_all isReDot v \<and> list_all isReSpace ws3"
proof -
  from reAfterParen_sound [OF assms(1)] obtain j where j: "j \<le> k"
    and g0: "reGroup (drop j r) (length (takeWhile isReDot (drop j r))) = Some v"
    by blast
  define t where "t = drop j r"
  from g0 have g: "reGroup t (length (takeWhile isReDot t)) = Some v" by (simp add: t_def)
  from reGroup_sound [OF g] obtain m where m: "1 \<le> m"
    and mn: "m \<le> length (takeWhile isReDot t)"
    and v: "v = take m t" and c: "reCloses (drop m t)"
    by blast
  from c obtain ws3 post where d: "drop m t = ws3 @ CHR '')'' # post"
    and w3: "list_all isReSpace ws3"
    unfolding reCloses_iff by blast
  have "t = take m t @ drop m t" by simp
  with v d have t: "t = v @ ws3 @ '')'' @ post" by simp
  have "r = take j r @ t" by (simp add: t_def)
  with t have r: "r = take j r @ v @ ws3 @ '')'' @ post" by simp
  from j assms(2) have "j \<le> length (takeWhile isReSpace r)" by simp
  then have w2: "list_all isReSpace (take j r)" by (rule list_all_take_takeWhile)
  from mn have dv: "list_all isReDot v" unfolding v by (rule list_all_take_takeWhile)
  from mn have "m \<le> length t"
    using length_takeWhile_le [of isReDot t] by simp
  with m have "v \<noteq> []" unfolding v by auto
  with r w2 dv w3 show ?thesis by blast
qed

lemma afterParen_complete:
  assumes r: "r = ws2 @ grp @ ws3 @ '')'' @ post"
    and w2: "list_all isReSpace ws2" and ne: "grp \<noteq> []"
    and dg: "list_all isReDot grp" and w3: "list_all isReSpace ws3"
  shows "reAfterParen r (length (takeWhile isReSpace r)) \<noteq> None"
proof -
  define t where "t = grp @ ws3 @ '')'' @ post"
  from w2 have "takeWhile isReSpace (ws2 @ t) = ws2 @ takeWhile isReSpace t"
    by (intro takeWhile_append2) (simp add: list_all_iff)
  then have j: "length ws2 \<le> length (takeWhile isReSpace r)"
    by (simp add: r t_def)
  have d: "drop (length ws2) r = t" by (simp add: r t_def)
  from dg have "takeWhile isReDot (grp @ ws3 @ '')'' @ post)
      = grp @ takeWhile isReDot (ws3 @ '')'' @ post)"
    by (intro takeWhile_append2) (simp add: list_all_iff)
  then have m: "length grp \<le> length (takeWhile isReDot t)"
    by (simp add: t_def)
  from ne have m1: "1 \<le> length grp" by (cases grp) simp_all
  have "drop (length grp) t = ws3 @ CHR '')'' # post" by (simp add: t_def)
  with w3 have "reCloses (drop (length grp) t)" unfolding reCloses_iff by blast
  from reGroup_complete [OF m1 m this]
  have "reGroup (drop (length ws2) r) (length (takeWhile isReDot (drop (length ws2) r))) \<noteq> None"
    unfolding d .
  from reAfterParen_complete [OF j this] show ?thesis .
qed

lemma reEnumAt_sound: "reEnumAt s = Some v \<Longrightarrow> enumMatchAt s v"
proof -
  assume a: "reEnumAt s = Some v"
  then have p: "HasPrefix s ''enum''"
    by (auto simp: reEnumAt_def split: if_splits)
  with a obtain r where d: "dropWhile isReSpace (drop 4 s) = CHR ''('' # r"
    and m: "reAfterParen r (length (takeWhile isReSpace r)) = Some v"
    by (auto simp: reEnumAt_def split: if_splits list.splits)
  from p have "s = ''enum'' @ drop 4 s"
    by (metis HasPrefix_def append_take_drop_id length_Cons list.size(3) numeral_Bit0
        numeral_2_eq_2 add_2_eq_Suc' Suc_1 add_Suc_right add_Suc mult_2 numeral_code(2))
  moreover have "drop 4 s = takeWhile isReSpace (drop 4 s) @ dropWhile isReSpace (drop 4 s)"
    by simp
  ultimately have s: "s = ''enum'' @ takeWhile isReSpace (drop 4 s) @ ''('' @ r"
    using d by simp
  have w1: "list_all isReSpace (takeWhile isReSpace (drop 4 s))"
    by (auto simp: list_all_iff dest: set_takeWhileD)
  from afterParen_sound [OF m order_refl] obtain ws2 ws3 post
    where "r = ws2 @ v @ ws3 @ '')'' @ post" and "list_all isReSpace ws2" and "v \<noteq> []"
      and "list_all isReDot v" and "list_all isReSpace ws3"
    by blast
  with s w1 show ?thesis unfolding enumMatchAt_def by metis
qed

lemma reEnumAt_complete: "enumMatchAt s grp \<Longrightarrow> reEnumAt s \<noteq> None"
proof -
  assume "enumMatchAt s grp"
  then obtain ws1 ws2 ws3 post
    where s: "s = ''enum'' @ ws1 @ ''('' @ ws2 @ grp @ ws3 @ '')'' @ post"
      and w1: "list_all isReSpace ws1" and w2: "list_all isReSpace ws2"
      and ne: "grp \<noteq> []" and dg: "list_all isReDot grp" and w3: "list_all isReSpace ws3"
    unfolding enumMatchAt_def by blast
  define r where "r = ws2 @ grp @ ws3 @ '')'' @ post"
  have p: "HasPrefix s ''enum''" by (simp add: s HasPrefix_def)
  have d4: "drop 4 s = ws1 @ CHR ''('' # r" by (simp add: s r_def)
  have np: "\<not> isReSpace CHR ''(''" by (simp add: isReSpace_def)
  from w1 have "dropWhile isReSpace (ws1 @ CHR ''('' # r) = dropWhile isReSpace (CHR ''('' # r)"
    by (intro dropWhile_append2) (simp add: list_all_iff)
  with np have d: "dropWhile isReSpace (drop 4 s) = CHR ''('' # r" by (simp add: d4)
  from afterParen_complete [OF r_def w2 ne dg w3]
  have "reAfterParen r (length (takeWhile isReSpace r)) \<noteq> None" .
  with p d show ?thesis by (simp add: reEnumAt_def)
qed

lemma FindEnumSubmatch_sound:
  "FindEnumSubmatch s = Some v \<Longrightarrow> \<exists>pre rest. s = pre @ rest \<and> enumMatchAt rest v"
proof (induction s)
  case Nil
  then show ?case by simp
next
  case (Cons c cs)
  show ?case
  proof (cases "reEnumAt (c # cs)")
    case None
    with Cons.prems have "FindEnumSubmatch cs = Some v" by simp
    from Cons.IH [OF this] obtain pre rest where "cs = pre @ rest" and "enumMatchAt rest v"
      by blast
    then have "c # cs = (c # pre) @ rest \<and> enumMatchAt rest v" by simp
    then show ?thesis by blast
  next
    case (Some w)
    with Cons.prems have "w = v" by simp
    with Some have "enumMatchAt (c # cs) v" by (simp add: reEnumAt_sound)
    then have "c # cs = [] @ (c # cs) \<and> enumMatchAt (c # cs) v" by simp
    then show ?thesis by blast
  qed
qed

lemma FindEnumSubmatch_complete:
  "enumMatchAt rest grp \<Longrightarrow> FindEnumSubmatch (pre @ rest) \<noteq> None"
proof (induction pre)
  case Nil
  from reEnumAt_complete [OF Nil] have r: "reEnumAt rest \<noteq> None" .
  then have "rest \<noteq> []" by (auto simp: reEnumAt_def HasPrefix_def)
  then obtain c cs where "rest = c # cs" by (cases rest) auto
  with r show ?case by auto
next
  case (Cons c pre)
  from Cons.IH [OF Cons.prems] show ?case
    by (cases "reEnumAt (c # pre @ rest)") simp_all
qed

lemma FindEnumSubmatch_None: "FindEnumSubmatch s = None \<longleftrightarrow> \<not> enumPattern s"
proof
  assume n: "FindEnumSubmatch s = None"
  show "\<not> enumPattern s"
  proof
    assume "enumPattern s"
    then obtain pre rest grp where "s = pre @ rest" and "enumMatchAt rest grp"
      unfolding enumPattern_def by blast
    with FindEnumSubmatch_complete [of rest grp pre] n show False by simp
  qed
next
  assume p: "\<not> enumPattern s"
  show "FindEnumSubmatch s = None"
  proof (cases "FindEnumSubmatch s")
    case None
    then show ?thesis .
  next
    case (Some v)
    from FindEnumSubmatch_sound [OF Some] p show ?thesis
      unfolding enumPattern_def by blast
  qed
qed

text \<open>The second expression: every value stands between two quotes and holds none.\<close>

lemma FindAllQuoted_between:
  "v \<in> set (FindAllQuoted st s) \<Longrightarrow>
     (case st of None \<Rightarrow> True | Some acc \<Rightarrow> CHR 0x27 \<notin> set acc) \<Longrightarrow>
     \<exists>x y. (case st of None \<Rightarrow> [] | Some acc \<Rightarrow> CHR 0x27 # acc) @ s
              = x @ CHR 0x27 # v @ CHR 0x27 # y
            \<and> CHR 0x27 \<notin> set v"
proof (induction st s rule: FindAllQuoted.induct)
  case 1
  then show ?case by simp
next
  case (2 acc)
  then show ?case by simp
next
  case (3 c cs)
  show ?case
  proof (cases "c = CHR 0x27")
    case True
    with 3 obtain x y where "CHR 0x27 # cs = x @ CHR 0x27 # v @ CHR 0x27 # y"
      and "CHR 0x27 \<notin> set v"
      by fastforce
    with True show ?thesis by (intro exI [of _ x] exI [of _ y]) simp
  next
    case False
    with 3 obtain x y where "cs = x @ CHR 0x27 # v @ CHR 0x27 # y" and "CHR 0x27 \<notin> set v"
      by fastforce
    then show ?thesis by (intro exI [of _ "c # x"] exI [of _ y]) simp
  qed
next
  case (4 acc c cs)
  show ?case
  proof (cases "c = CHR 0x27")
    case True
    with 4(3) have "v = acc \<or> v \<in> set (FindAllQuoted None cs)" by auto
    then show ?thesis
    proof
      assume "v = acc"
      with True 4(4) show ?thesis by (intro exI [of _ "[]"] exI [of _ cs]) simp
    next
      assume "v \<in> set (FindAllQuoted None cs)"
      with 4(1) [OF True] obtain x y where "cs = x @ CHR 0x27 # v @ CHR 0x27 # y"
        and "CHR 0x27 \<notin> set v"
        by fastforce
      with True show ?thesis
        by (intro exI [of _ "CHR 0x27 # acc @ CHR 0x27 # x"] exI [of _ y]) simp
    qed
  next
    case False
    with 4(3) have "v \<in> set (FindAllQuoted (Some (acc @ [c])) cs)" by simp
    moreover from False 4(4) have "CHR 0x27 \<notin> set (acc @ [c])" by simp
    ultimately obtain x y
      where "(CHR 0x27 # acc @ [c]) @ cs = x @ CHR 0x27 # v @ CHR 0x27 # y"
        and "CHR 0x27 \<notin> set v"
      using 4(2) [OF False] by fastforce
    then show ?thesis by (intro exI [of _ x] exI [of _ y]) simp
  qed
qed

lemma FindAllQuoted_None_between:
  "v \<in> set (FindAllQuoted None s) \<Longrightarrow>
     \<exists>x y. s = x @ CHR 0x27 # v @ CHR 0x27 # y \<and> CHR 0x27 \<notin> set v"
  using FindAllQuoted_between [of v None s] by simp

text \<open>Lower-casing of ASCII text, byte by byte.\<close>

lemma toLowerByte_ASCII:
  assumes "(of_char c :: nat) < 128"
  shows "\<not> isUpperByte (toLowerByte c)" and "(of_char (toLowerByte c) :: nat) < 128"
  using assms
  by (auto simp: toLowerByte_def isUpperByte_def less_eq_char_def)

lemma toLowerByte_fixed: "\<not> isUpperByte c \<Longrightarrow> toLowerByte c = c"
  by (simp add: toLowerByte_def)

lemma toLowerByte_not_upper: "\<not> isUpperByte (toLowerByte c)"
  by (auto simp: toLowerByte_def isUpperByte_def less_eq_char_def)

lemma toLowerByte_quote: "toLowerByte c = CHR 0x27 \<longleftrightarrow> c = CHR 0x27"
proof
  assume a: "toLowerByte c = CHR 0x27"
  show "c = CHR 0x27"
  proof (cases "isUpperByte c")
    case True
    from a have "(of_char (toLowerByte c) :: nat) = 39" by simp
    with True have False
      by (simp add: toLowerByte_def isUpperByte_def less_eq_char_def)
    then show ?thesis ..
  next
    case False
    with a show ?thesis by (simp add: toLowerByte_def)
  qed
next
  assume "c = CHR 0x27"
  then show "toLowerByte c = CHR 0x27"
    by (simp add: toLowerByte_def isUpperByte_def less_eq_char_def)
qed

lemma ToLower_ASCII: "isASCII s \<Longrightarrow> ToLower u s = map toLowerByte s"
  by (simp add: ToLower_def)

lemma ASCII_value_lowercase:
  assumes a: "isASCII s" and t: "ToLower u s = x @ CHR 0x27 # v @ CHR 0x27 # y"
  shows "ToLower u v = v" and "\<forall>c\<in>set v. \<not> isUpperByte c"
proof -
  from t have "set v \<subseteq> set (ToLower u s)" by auto
  with a have sub: "set v \<subseteq> toLowerByte ` set s" by (simp add: ToLower_ASCII)
  have p: "\<not> isUpperByte c \<and> (of_char c :: nat) < 128" if "c \<in> set v" for c
  proof -
    from that sub obtain d where d: "d \<in> set s" and c: "c = toLowerByte d" by auto
    from a d have "(of_char d :: nat) < 128" by (simp add: isASCII_def list_all_iff)
    from toLowerByte_ASCII [OF this] c show ?thesis by simp
  qed
  then show n: "\<forall>c\<in>set v. \<not> isUpperByte c" by blast
  from p have "isASCII v" by (simp add: isASCII_def list_all_iff)
  then have "ToLower u v = map toLowerByte v" by (rule ToLower_ASCII)
  also from n have "\<dots> = v" by (induction v) (simp_all add: toLowerByte_fixed)
  finally show "ToLower u v = v" .
qed

text \<open>Lower-casing that works rune by rune: the pieces between the quotes of a
  lower-cased text are lower-cased.\<close>

lemma SplitByte_ToLower:
  assumes "ToLower_runewise u"
  shows "SplitByte (ToLower u s) CHR 0x27 = map (ToLower u) (SplitByte s CHR 0x27)"
proof (induction "length s" arbitrary: s rule: less_induct)
  case less
  from assms have h2: "ToLower u (a @ CHR 0x27 # b) = ToLower u a @ CHR 0x27 # ToLower u b"
    and h3: "CHR 0x27 \<in> set (ToLower u a) \<Longrightarrow> CHR 0x27 \<in> set a" for a b
    by (simp_all add: ToLower_runewise_def)
  show ?case
  proof (cases "CHR 0x27 \<in> set s")
    case False
    with h3 [of s] have "CHR 0x27 \<notin> set (ToLower u s)" by blast
    with False show ?thesis by (simp add: SplitByte_no_sep)
  next
    case True
    then obtain a b where s: "s = a @ CHR 0x27 # b" and a: "CHR 0x27 \<notin> set a"
      by (meson split_list_first)
    from a h3 [of a] have la: "CHR 0x27 \<notin> set (ToLower u a)" by blast
    from s have "length b < length s" by simp
    from less [OF this]
    have "SplitByte (ToLower u b) CHR 0x27 = map (ToLower u) (SplitByte b CHR 0x27)" .
    with a la show ?thesis
      unfolding s h2 SplitByte_append_sep by (simp add: SplitByte_no_sep)
  qed
qed

lemma quoted_is_piece:
  assumes "CHR 0x27 \<notin> set v"
  shows "v \<in> set (SplitByte (x @ CHR 0x27 # v @ CHR 0x27 # y) CHR 0x27)"
proof -
  have "SplitByte (x @ CHR 0x27 # (v @ CHR 0x27 # y)) CHR 0x27
      = SplitByte x CHR 0x27 @ SplitByte v CHR 0x27 @ SplitByte y CHR 0x27"
    unfolding SplitByte_append_sep by simp
  with assms show ?thesis by (simp add: SplitByte_no_sep)
qed

lemma SplitByte_piece_subset: "p \<in> set (SplitByte s sep) \<Longrightarrow> set p \<subseteq> set s"
proof (induction s arbitrary: p)
  case Nil
  then show ?case by simp
next
  case (Cons c cs)
  obtain w ws where w: "SplitByte cs sep = w # ws"
    using SplitByte_not_Nil [of cs sep] by (cases "SplitByte cs sep") auto
  show ?case
  proof (cases "c = sep")
    case True
    with Cons.prems have "p = [] \<or> p \<in> set (SplitByte cs sep)" by simp
    with Cons.IH show ?thesis by auto
  next
    case False
    with Cons.prems w have "p = c # w \<or> p \<in> set ws" by simp
    moreover from w have "w \<in> set (SplitByte cs sep)" by simp
    moreover from w have "set ws \<subseteq> set (SplitByte cs sep)" by auto
    ultimately show ?thesis using Cons.IH by fastforce
  qed
qed

text \<open>Under a rune-by-rune lower-casing, every quoted piece of the lower-cased text is
  the lower-casing of a piece between quotes of the text itself.\<close>

lemma runewise_value_literal:
  assumes r: "ToLower_runewise u" and t: "ToLower u s = x @ CHR 0x27 # v @ CHR 0x27 # y"
    and v: "CHR 0x27 \<notin> set v"
  shows "\<exists>lit\<in>set (SplitByte s CHR 0x27). v = ToLower u lit"
proof -
  from quoted_is_piece [OF v, of x y] t
  have "v \<in> set (SplitByte (ToLower u s) CHR 0x27)" by simp
  then have "v \<in> set (map (ToLower u) (SplitByte s CHR 0x27))"
    by (simp only: SplitByte_ToLower [OF r])
  then show ?thesis by auto
qed

lemma runewise_value_no_upper:
  assumes r: "ToLower_runewise u" and t: "ToLower u s = x @ CHR 0x27 # v @ CHR 0x27 # y"
  shows "\<forall>c\<in>set v. \<not> isUpperByte c"
proof -
  from r have "\<forall>c\<in>set (ToLower u s). \<not> isUpperByte c"
    by (simp add: ToLower_runewise_def)
  with t show ?thesis by simp
qed

lemma runewise_value_lowercase:
  assumes r: "ToLower_runewise u" and t: "ToLower u s = x @ CHR 0x27 # v @ CHR 0x27 # y"
    and v: "CHR 0x27 \<notin> set v"
  shows "ToLower u v = v"
proof -
  from r have h1: "ToLower u (ToLower u s) = ToLower u s"
    by (simp add: ToLower_runewise_def)
  from SplitByte_ToLower [OF r, of "ToLower u s"] h1
  have "map (ToLower u) (SplitByte (ToLower u s) CHR 0x27)
      = map id (SplitByte (ToLower u s) CHR 0x27)"
    by simp
  then have f: "\<forall>p\<in>set (SplitByte (ToLower u s) CHR 0x27). ToLower u p = p"
    unfolding map_eq_conv by simp
  have "SplitByte (x @ CHR 0x27 # (v @ CHR 0x27 # y)) CHR 0x27
      = SplitByte x CHR 0x27 @ SplitByte v CHR 0x27 @ SplitByte y CHR 0x27"
    unfolding SplitByte_append_sep by simp
  with v have "v \<in> set (SplitByte (x @ CHR 0x27 # v @ CHR 0x27 # y) CHR 0x27)"
    by (simp add: SplitByte_no_sep)
  with f t show ?thesis by simp
qed

lemma bytewise_ToLower: "ToLower bytewiseUnicode s = map toLowerByte s"
  by (simp add: ToLower_def bytewiseUnicode_def)

lemma bytewise_runewise: "ToLower_runewise bytewiseUnicode"
proof -
  have "map toLowerByte (map toLowerByte s) = map toLowerByte s" for s
    by (induction s) (simp_all add: toLowerByte_fixed toLowerByte_not_upper)
  moreover have "CHR 0x27 \<in> set (map toLowerByte a) \<Longrightarrow> CHR 0x27 \<in> set a" for a
    using toLowerByte_quote by (metis (no_types, lifting) imageE list.set_map)
  moreover have "toLowerByte CHR 0x27 = CHR 0x27"
    using toLowerByte_quote by blast
  ultimately show ?thesis
    by (simp add: ToLower_runewise_def bytewise_ToLower toLowerByte_not_upper)
qed

lemma ASCII_value_literal:
  assumes a: "isASCII s" and t: "ToLower u s = x @ CHR 0x27 # v @ CHR 0x27 # y"
    and v: "CHR 0x27 \<notin> set v"
  shows "\<exists>lit\<in>set (SplitByte s CHR 0x27). v = ToLower u lit"
proof -
  from a t have "ToLower bytewiseUnicode s = x @ CHR 0x27 # v @ CHR 0x27 # y"
    by (simp add: ToLower_ASCII bytewise_ToLower)
  from runewise_value_literal [OF bytewise_runewise this v]
  obtain lit where l: "lit \<in> set (SplitByte s CHR 0x27)"
    and e: "v = ToLower bytewiseUnicode lit"
    by blast
  from SplitByte_piece_subset [OF l] a have "isASCII lit"
    by (auto simp: isASCII_def list_all_iff)
  then have "ToLower u lit = ToLower bytewiseUnicode lit"
    by (simp add: ToLower_ASCII bytewise_ToLower)
  with e have "v = ToLower u lit" by simp
  with l show ?thesis by (rule rev_bexI)
qed

text \<open>The values of \<open>ParseEnumValues\<close>: each one is a quoted literal inside the group of
  a match of the first expression in the lower-cased column type.\<close>

lemma ParseEnumValues_value:
  assumes "v \<in> set (ParseEnumValues u columnType)"
  shows "\<exists>pre rest grp x y. ToLower u columnType = pre @ rest \<and> enumMatchAt rest grp
           \<and> grp = x @ CHR 0x27 # v @ CHR 0x27 # y \<and> CHR 0x27 \<notin> set v"
proof -
  from assms obtain grp where f: "FindEnumSubmatch (ToLower u columnType) = Some grp"
    and q: "v \<in> set (FindAllQuoted None grp)"
    by (cases "FindEnumSubmatch (ToLower u columnType)") (auto simp: ParseEnumValues_def)
  from FindEnumSubmatch_sound [OF f] obtain pre rest
    where "ToLower u columnType = pre @ rest" and "enumMatchAt rest grp"
    by blast
  moreover from FindAllQuoted_None_between [OF q] obtain x y
    where "grp = x @ CHR 0x27 # v @ CHR 0x27 # y" and "CHR 0x27 \<notin> set v"
    by blast
  ultimately show ?thesis by blast
qed

lemma value_in_text:
  assumes "s = pre @ rest" and "enumMatchAt rest grp"
    and "grp = x @ CHR 0x27 # v @ CHR 0x27 # y"
  shows "\<exists>a b. s = a @ CHR 0x27 # v @ CHR 0x27 # b"
proof -
  from assms(2) obtain ws1 ws2 ws3 post
    where "rest = ''enum'' @ ws1 @ ''('' @ ws2 @ grp @ ws3 @ '')'' @ post"
    unfolding enumMatchAt_def by blast
  with assms(1,3)
  have "s = (pre @ ''enum'' @ ws1 @ ''('' @ ws2 @ x) @ CHR 0x27 # v @ CHR 0x27
      # (y @ ws3 @ '')'' @ post)"
    by simp
  then show ?thesis by blast
qed

lemma ParseEnumValues_lowercase:
  assumes "v \<in> set (ParseEnumValues u columnType)"
  shows "isASCII columnType \<longrightarrow>
           ToLower u v = v \<and> (\<forall>c\<in>set v. \<not> isUpperByte c)
           \<and> (\<exists>lit\<in>set (SplitByte columnType CHR 0x27). v = ToLower u lit)"
    and "ToLower_runewise u \<longrightarrow>
           ToLower u v = v \<and> (\<forall>c\<in>set v. \<not> isUpperByte c)
           \<and> (\<exists>lit\<in>set (SplitByte columnType CHR 0x27). v = ToLower u lit)"
proof -
  from ParseEnumValues_value [OF assms] obtain pre rest grp x y
    where t: "ToLower u columnType = pre @ rest" and m: "enumMatchAt rest grp"
      and g: "grp = x @ CHR 0x27 # v @ CHR 0x27 # y" and v: "CHR 0x27 \<notin> set v"
    by blast
  from value_in_text [OF t m g] obtain a b
    where s: "ToLower u columnType = a @ CHR 0x27 # v @ CHR 0x27 # b"
    by blast
  from ASCII_value_lowercase [OF _ s] ASCII_value_literal [OF _ s v]
  show "isASCII columnType \<longrightarrow>
           ToLower u v = v \<and> (\<forall>c\<in>set v. \<not> isUpperByte c)
           \<and> (\<exists>lit\<in>set (SplitByte columnType CHR 0x27). v = ToLower u lit)"
    by blast
  from runewise_value_lowercase [OF _ s v] runewise_value_no_upper [OF _ s]
    runewise_value_literal [OF _ s v]
  show "ToLower_runewise u \<longrightarrow>
           ToLower u v = v \<and> (\<forall>c\<in>set v. \<not> isUpperByte c)
           \<and> (\<exists>lit\<in>set (SplitByte columnType CHR 0x27). v = ToLower u lit)"
    by blast
qed

lemma ParseEnumValues_no_pattern:
  "\<not> enumPattern (ToLower u columnType) \<Longrightarrow> ParseEnumValues u columnType = []"
  using FindEnumSubmatch_None [of "ToLower u columnType"]
  by (simp add: ParseEnumValues_def)

lemma ParseEnumValues_pattern:
  assumes "enumPattern (ToLower u columnType)"
  shows "\<exists>pre rest grp.
           ToLower u columnType = pre @ rest \<and> enumMatchAt rest grp
           \<and> ParseEnumValues u columnType = FindAllQuoted None grp"
proof -
  from assms FindEnumSubmatch_None [of "ToLower u columnType"]
  obtain grp where f: "FindEnumSubmatch (ToLower u columnType) = Some grp"
    by (cases "FindEnumSubmatch (ToLower u columnType)") auto
  then have "ParseEnumValues u columnType = FindAllQuoted None grp"
    by (simp add: ParseEnumValues_def)
  with FindEnumSubmatch_sound [OF f] show ?thesis by blast
qed

lemma parseEnumValues_eq: "parseEnumValues u columnType = ParseEnumValues u columnType"
  by (simp add: parseEnumValues_def ParseEnumValues_def)

lemma mysqlColumn_EnumValues:
  "EnumValues (mysqlColumn u r) =
     (if ToLower u (row_dataType r) = ''enum'' then parseEnumValues u (row_columnType r)
      else [])"
  by (simp add: mysqlColumn_def Let_def split: option.splits)

text \<open>
  Claim C10. \<open>ParseEnumValues\<close> lower-cases the whole column type and takes the quoted
  literals from it: every value it returns stands between two quotes, and holds none,
  inside the parentheses of an \<open>enum(...)\<close> in the lower-cased column type. Such a value
  is lower-case, that is, it has no letter \<open>A-Z\<close> and lower-casing leaves it as it is,
  and it is the lower-casing of a text that stands between quotes in the column type:
  when the column type is ASCII, by the code alone; for every column type, given that
  lower-casing works rune by rune. For \<open>enum('Active','INACTIVE')\<close> the result is
  \<open>active\<close>, \<open>inactive\<close>; the pattern is found in upper case and with white space too,
  and a column type with a letter outside ASCII gives what the lower-casing of Go makes
  of it. A column type whose lower-cased text does not hold the pattern \<open>enum(...)\<close>, such
  as \<open>varchar(255)\<close>, \<open>enumeration\<close> or \<open>set('enum','b')\<close>, gives the empty result; one
  that holds it gives the quoted literals of the group of a match. The
  MySQL introspector stores in \<open>EnumValues\<close> what the function returns for the column
  type when the data type is \<open>enum\<close>, hence lower-cased values.
\<close>

theorem enum_values_are_lowercased:
  "(\<forall>v\<in>set (ParseEnumValues u columnType).
      (\<exists>pre rest grp x y.
          ToLower u columnType = pre @ rest \<and> enumMatchAt rest grp
          \<and> grp = x @ CHR 0x27 # v @ CHR 0x27 # y \<and> CHR 0x27 \<notin> set v)
      \<and> (isASCII columnType
           \<longrightarrow> ToLower u v = v \<and> (\<forall>c\<in>set v. \<not> isUpperByte c)
               \<and> (\<exists>lit\<in>set (SplitByte columnType CHR 0x27). v = ToLower u lit))
      \<and> (ToLower_runewise u
           \<longrightarrow> ToLower u v = v \<and> (\<forall>c\<in>set v. \<not> isUpperByte c)
               \<and> (\<exists>lit\<in>set (SplitByte columnType CHR 0x27). v = ToLower u lit)))
   \<and> ParseEnumValues u (''enum('' @ [CHR 0x27] @ ''Active'' @ [CHR 0x27] @ '',''
        @ [CHR 0x27] @ ''INACTIVE'' @ [CHR 0x27] @ '')'') = [''active'', ''inactive'']
   \<and> ParseEnumValues u (''ENUM ( '' @ [CHR 0x27] @ ''A'' @ [CHR 0x27] @ '',''
        @ [CHR 0x27] @ ''b'' @ [CHR 0x27] @ '' )'') = [''a'', ''b'']
   \<and> (uni_ToLower u (''enum('' @ [CHR 0x27, CHR 0xC3, CHR 0x80, CHR ''B'', CHR 0x27] @ '')'')
        = ''enum('' @ [CHR 0x27, CHR 0xC3, CHR 0xA0, CHR ''b'', CHR 0x27] @ '')''
      \<longrightarrow> ParseEnumValues u
            (''enum('' @ [CHR 0x27, CHR 0xC3, CHR 0x80, CHR ''B'', CHR 0x27] @ '')'')
          = [[CHR 0xC3, CHR 0xA0, CHR ''b'']])
   \<and> (\<not> enumPattern (ToLower u columnType) \<longrightarrow> ParseEnumValues u columnType = [])
   \<and> (enumPattern (ToLower u columnType)
      \<longrightarrow> (\<exists>pre rest grp.
            ToLower u columnType = pre @ rest \<and> enumMatchAt rest grp
            \<and> ParseEnumValues u columnType = FindAllQuoted None grp))
   \<and> ParseEnumValues u ''varchar(255)'' = []
   \<and> ParseEnumValues u ''enumeration'' = []
   \<and> ParseEnumValues u (''set('' @ [CHR 0x27] @ ''enum'' @ [CHR 0x27] @ '',''
        @ [CHR 0x27] @ ''b'' @ [CHR 0x27] @ '')'') = []
   \<and> EnumValues (mysqlColumn u r)
       = (if ToLower u (row_dataType r) = ''enum''
          then ParseEnumValues u (row_columnType r) else [])
   \<and> (\<forall>v\<in>set (EnumValues (mysqlColumn u r)).
        (isASCII (row_columnType r)
           \<longrightarrow> ToLower u v = v \<and> (\<forall>c\<in>set v. \<not> isUpperByte c))
        \<and> (ToLower_runewise u
           \<longrightarrow> ToLower u v = v \<and> (\<forall>c\<in>set v. \<not> isUpperByte c)))"
proof -
  let ?up = "''enum('' @ [CHR 0x27, CHR 0xC3, CHR 0x80, CHR ''B'', CHR 0x27] @ '')''"
  let ?lo = "''enum('' @ [CHR 0x27, CHR 0xC3, CHR 0xA0, CHR ''b'', CHR 0x27] @ '')''"
  have val: "\<forall>v\<in>set (ParseEnumValues u t).
      (\<exists>pre rest grp x y.
          ToLower u t = pre @ rest \<and> enumMatchAt rest grp
          \<and> grp = x @ CHR 0x27 # v @ CHR 0x27 # y \<and> CHR 0x27 \<notin> set v)
      \<and> (isASCII t
           \<longrightarrow> ToLower u v = v \<and> (\<forall>c\<in>set v. \<not> isUpperByte c)
               \<and> (\<exists>lit\<in>set (SplitByte t CHR 0x27). v = ToLower u lit))
      \<and> (ToLower_runewise u
           \<longrightarrow> ToLower u v = v \<and> (\<forall>c\<in>set v. \<not> isUpperByte c)
               \<and> (\<exists>lit\<in>set (SplitByte t CHR 0x27). v = ToLower u lit))" for t
    using ParseEnumValues_value [of _ u t] ParseEnumValues_lowercase [of _ u t]
    by blast
  have ex: "ParseEnumValues u (''enum('' @ [CHR 0x27] @ ''Active'' @ [CHR 0x27] @ '',''
        @ [CHR 0x27] @ ''INACTIVE'' @ [CHR 0x27] @ '')'') = [''active'', ''inactive'']"
    by code_simp
  have ws: "ParseEnumValues u (''ENUM ( '' @ [CHR 0x27] @ ''A'' @ [CHR 0x27] @ '',''
        @ [CHR 0x27] @ ''b'' @ [CHR 0x27] @ '' )'') = [''a'', ''b'']"
    by code_simp
  have na: "\<not> isASCII ?up" by code_simp
  have lo: "(case FindEnumSubmatch ?lo of None \<Rightarrow> []
             | Some valuesPart \<Rightarrow> FindAllQuoted None valuesPart)
      = [[CHR 0xC3, CHR 0xA0, CHR ''b'']]"
    by code_simp
  have uni: "ParseEnumValues u ?up = [[CHR 0xC3, CHR 0xA0, CHR ''b'']]"
    if "uni_ToLower u ?up = ?lo"
  proof -
    from na that have "ToLower u ?up = ?lo" by (simp only: ToLower_def if_False)
    with lo show ?thesis by (simp only: ParseEnumValues_def)
  qed
  note none = ParseEnumValues_no_pattern [of u columnType]
  note some = ParseEnumValues_pattern [of u columnType]
  have vc: "ParseEnumValues u ''varchar(255)'' = []" by code_simp
  have en: "ParseEnumValues u ''enumeration'' = []" by code_simp
  have st: "ParseEnumValues u (''set('' @ [CHR 0x27] @ ''enum'' @ [CHR 0x27] @ '',''
        @ [CHR 0x27] @ ''b'' @ [CHR 0x27] @ '')'') = []"
    by code_simp
  have col: "EnumValues (mysqlColumn u r)
       = (if ToLower u (row_dataType r) = ''enum''
          then ParseEnumValues u (row_columnType r) else [])"
    by (simp add: mysqlColumn_EnumValues parseEnumValues_eq)
  have stored: "\<forall>v\<in>set (EnumValues (mysqlColumn u r)).
        (isASCII (row_columnType r)
           \<longrightarrow> ToLower u v = v \<and> (\<forall>c\<in>set v. \<not> isUpperByte c))
        \<and> (ToLower_runewise u
           \<longrightarrow> ToLower u v = v \<and> (\<forall>c\<in>set v. \<not> isUpperByte c))"
  proof (cases "ToLower u (row_dataType r) = ''enum''")
    case True
    with col have "EnumValues (mysqlColumn u r) = ParseEnumValues u (row_columnType r)"
      by simp
    with val [of "row_columnType r"] show ?thesis by simp
  next
    case False
    with col show ?thesis by simp
  qed
  from val [of columnType] ex ws uni none some vc en st col stored show ?thesis by blast
qed

theorem enum_values_are_lowercased_witness:
  "ParseEnumValues bytewiseUnicode (''enum('' @ [CHR 0x27] @ ''Active'' @ [CHR 0x27] @ '',''
        @ [CHR 0x27] @ ''INACTIVE'' @ [CHR 0x27] @ '')'') = [''active'', ''inactive'']
   \<and> isASCII (''enum('' @ [CHR 0x27] @ ''Active'' @ [CHR 0x27] @ '',''
        @ [CHR 0x27] @ ''INACTIVE'' @ [CHR 0x27] @ '')'')
   \<and> ToLower_runewise bytewiseUnicode
   \<and> ToLower bytewiseUnicode ''active'' = ''active''
   \<and> ToLower bytewiseUnicode ''inactive'' = ''inactive''
   \<and> enumPattern (ToLower bytewiseUnicode (''enum('' @ [CHR 0x27] @ ''Active'' @ [CHR 0x27]
        @ '','' @ [CHR 0x27] @ ''INACTIVE'' @ [CHR 0x27] @ '')''))
   \<and> \<not> enumPattern (ToLower bytewiseUnicode ''enumeration'')
   \<and> ParseEnumValues bytewiseUnicode ''enumeration'' = []
   \<and> uni_ToLower
        (bytewiseUnicode\<lparr>uni_ToLower :=
           (\<lambda>s. ''enum('' @ [CHR 0x27, CHR 0xC3, CHR 0xA0, CHR ''b'', CHR 0x27] @ '')'')\<rparr>)
        (''enum('' @ [CHR 0x27, CHR 0xC3, CHR 0x80, CHR ''B'', CHR 0x27] @ '')'')
       = ''enum('' @ [CHR 0x27, CHR 0xC3, CHR 0xA0, CHR ''b'', CHR 0x27] @ '')''
   \<and> ParseEnumValues
        (bytewiseUnicode\<lparr>uni_ToLower :=
           (\<lambda>s. ''enum('' @ [CHR 0x27, CHR 0xC3, CHR 0xA0, CHR ''b'', CHR 0x27] @ '')'')\<rparr>)
        (''enum('' @ [CHR 0x27, CHR 0xC3, CHR 0x80, CHR ''B'', CHR 0x27] @ '')'')
       = [[CHR 0xC3, CHR 0xA0, CHR ''b'']]
   \<and> ToLower bytewiseUnicode (row_dataType sampleEnumRow) = ''enum''
   \<and> EnumValues (mysqlColumn bytewiseUnicode sampleEnumRow) = [''active'', ''inactive'']"
proof -
  let ?e = "''enum('' @ [CHR 0x27] @ ''Active'' @ [CHR 0x27] @ '',''
        @ [CHR 0x27] @ ''INACTIVE'' @ [CHR 0x27] @ '')''"
  let ?lo = "''enum('' @ [CHR 0x27, CHR 0xC3, CHR 0xA0, CHR ''b'', CHR 0x27] @ '')''"
  let ?up = "''enum('' @ [CHR 0x27, CHR 0xC3, CHR 0x80, CHR ''B'', CHR 0x27] @ '')''"
  let ?u = "bytewiseUnicode\<lparr>uni_ToLower := (\<lambda>s. ?lo)\<rparr>"
  note t = enum_values_are_lowercased [of bytewiseUnicode ?e sampleEnumRow]
  from t have ex: "ParseEnumValues bytewiseUnicode ?e = [''active'', ''inactive'']"
    by blast
  have a: "isASCII ?e" by code_simp
  note rw = bytewise_runewise
  from t have "\<forall>v\<in>set (ParseEnumValues bytewiseUnicode ?e).
      isASCII ?e \<longrightarrow> ToLower bytewiseUnicode v = v"
    by blast
  with ex a have l1: "ToLower bytewiseUnicode ''active'' = ''active''" by simp
  from t have "\<forall>v\<in>set (ParseEnumValues bytewiseUnicode ?e).
      ToLower_runewise bytewiseUnicode \<longrightarrow> ToLower bytewiseUnicode v = v"
    by blast
  with ex rw have l2: "ToLower bytewiseUnicode ''inactive'' = ''inactive''" by simp
  have "FindEnumSubmatch (ToLower bytewiseUnicode ?e) \<noteq> None" by code_simp
  then have ep: "enumPattern (ToLower bytewiseUnicode ?e)"
    by (simp add: FindEnumSubmatch_None)
  from t ep have "\<exists>pre rest grp.
      ToLower bytewiseUnicode ?e = pre @ rest \<and> enumMatchAt rest grp
      \<and> ParseEnumValues bytewiseUnicode ?e = FindAllQuoted None grp"
    by blast
  have "FindEnumSubmatch (ToLower bytewiseUnicode ''enumeration'') = None" by code_simp
  then have np: "\<not> enumPattern (ToLower bytewiseUnicode ''enumeration'')"
    by (simp add: FindEnumSubmatch_None)
  with enum_values_are_lowercased [of bytewiseUnicode "''enumeration''" sampleEnumRow]
  have em: "ParseEnumValues bytewiseUnicode ''enumeration'' = []" by blast
  have h: "uni_ToLower ?u ?up = ?lo" by simp
  with enum_values_are_lowercased [of ?u ?e sampleEnumRow]
  have un: "ParseEnumValues ?u ?up = [[CHR 0xC3, CHR 0xA0, CHR ''b'']]" by blast
  have dt: "ToLower bytewiseUnicode (row_dataType sampleEnumRow) = ''enum''" by code_simp
  have ct: "row_columnType sampleEnumRow = ?e" by (simp add: sampleEnumRow_def)
  from t dt have "EnumValues (mysqlColumn bytewiseUnicode sampleEnumRow)
      = ParseEnumValues bytewiseUnicode (row_columnType sampleEnumRow)"
    by simp
  with ct ex have st: "EnumValues (mysqlColumn bytewiseUnicode sampleEnumRow)
      = [''active'', ''inactive'']"
    by simp
  from ex a rw l1 l2 ep np em h un dt st show ?thesis by blast
qed

section \<open>Properties of the naming functions\<close>

text \<open>The loop of \<open>replaceAcronym\<close> ends for a pattern that is not empty, and its result is
  the recursion \<open>scanAcronym\<close>.\<close>

lemma acronyms_ok: "list_all entry_ok acronyms"
  by code_simp

lemma loop_is_scan:
  "pattern \<noteq> [] \<Longrightarrow> i \<le> length result \<Longrightarrow>
     replaceAcronym_loop pattern replacement i result
       = Some (take i result @ scanAcronym pattern replacement (drop i result))"
proof (induction "length result - i" arbitrary: i result rule: less_induct)
  case less
  let ?rest = "drop i result"
  let ?n = "length pattern"
  have pl: "0 < ?n" using less.prems(1) by simp
  have cond: "(int i \<le> int (length result) - int ?n) = (?n \<le> length ?rest)"
    using less.prems(2) by auto
  show ?case
  proof (cases "?n \<le> length ?rest")
    case False
    then show ?thesis
      by (subst replaceAcronym_loop.simps, subst scanAcronym.simps) (simp add: cond)
  next
    case True
    have sl: "slice result i (i + ?n) = take ?n ?rest"
      by (simp add: slice_def)
    have bd: "(length result \<le> i + ?n \<or> isUpperByte (result ! (i + ?n)))
          = (drop ?n ?rest = [] \<or> isUpperByte (hd (drop ?n ?rest)))"
      by (cases "length result \<le> i + ?n") (simp_all add: hd_drop_conv_nth add.commute)
    show ?thesis
    proof (cases "occursAtBoundary pattern ?rest")
      case occ: True
      let ?res' = "slice result 0 i @ replacement @ slice result (i + ?n) (length result)"
      let ?i' = "i + length replacement"
      have res': "?res' = take i result @ replacement @ drop ?n ?rest"
        by (simp add: slice_def add.commute)
      have True': "?n \<le> length result - i" using True by simp
      have "length ?res' - ?i' = length result - i - ?n"
        using less.prems(2) by (simp add: res')
      moreover have "length result - i - ?n < length result - i"
        using pl True' by arith
      ultimately have len: "length ?res' - ?i' < length result - i" by simp
      have i': "?i' \<le> length ?res'"
        using less.prems by (simp add: res')
      have tk: "take ?i' ?res' = take i result @ replacement"
        using less.prems(2) by (simp add: res')
      have dr: "drop ?i' ?res' = drop ?n ?rest"
        using less.prems(2) by (simp add: res')
      have sc: "scanAcronym pattern replacement ?rest
            = replacement @ scanAcronym pattern replacement (drop ?n ?rest)"
        using occ True less.prems(1) by (subst scanAcronym.simps) simp
      have "replaceAcronym_loop pattern replacement i result
            = replaceAcronym_loop pattern replacement ?i' ?res'"
        using occ True
        by (subst replaceAcronym_loop.simps) (simp add: cond sl bd occursAtBoundary_def)
      also have "\<dots> = Some (take ?i' ?res' @ scanAcronym pattern replacement (drop ?i' ?res'))"
        by (rule less.hyps [OF len less.prems(1) i'])
      also have "\<dots> = Some (take i result @ scanAcronym pattern replacement ?rest)"
        by (simp only: tk dr sc append_assoc)
      finally show ?thesis .
    next
      case nocc: False
      from True less.prems(1) have lt: "i < length result"
        by (cases pattern) auto
      have len: "length result - Suc i < length result - i" using lt by simp
      have sc: "scanAcronym pattern replacement ?rest
            = hd ?rest # scanAcronym pattern replacement (tl ?rest)"
        using nocc True less.prems(1) by (subst scanAcronym.simps) simp
      have "replaceAcronym_loop pattern replacement i result
            = replaceAcronym_loop pattern replacement (i + 1) result"
        using nocc True
        by (subst replaceAcronym_loop.simps) (auto simp: cond sl bd occursAtBoundary_def)
      also have "\<dots> = Some (take (Suc i) result
            @ scanAcronym pattern replacement (drop (Suc i) result))"
        using less.hyps [OF len less.prems(1), of] lt by simp
      also have "\<dots> = Some (take i result @ scanAcronym pattern replacement ?rest)"
        using lt by (simp add: sc take_Suc_conv_app_nth hd_drop_conv_nth drop_Suc tl_drop)
      finally show ?thesis .
    qed
  qed
qed

lemma replaceAcronym_scan:
  "pattern \<noteq> [] \<Longrightarrow> replaceAcronym s pattern replacement = Some (scanAcronym pattern replacement s)"
  by (simp add: replaceAcronym_def loop_is_scan)

lemma entry_ok_hd: "entry_ok (p, r) \<Longrightarrow> hd r = hd p"
  by (simp add: entry_ok_def)

lemma entry_ok_length: "entry_ok (p, r) \<Longrightarrow> length r = length p"
  by (simp add: entry_ok_def)

lemma entry_ok_two: "entry_ok (p, r) \<Longrightarrow> 2 \<le> length p"
  by (simp add: entry_ok_def)

lemma entry_ok_upper: "entry_ok (p, r) \<Longrightarrow> isUpperByte (hd p)"
  by (simp add: entry_ok_def)

lemma entry_ok_tl_upper: "entry_ok (p, r) \<Longrightarrow> list_all isUpperByte (tl r)"
  by (simp add: entry_ok_def)

lemma entry_ok_pattern: "entry_ok (p, r) \<Longrightarrow> pattern_ok p"
  by (simp add: entry_ok_def pattern_ok_def)

lemma entry_ok_nonempty: "entry_ok (p, r) \<Longrightarrow> p \<noteq> []"
  using entry_ok_two [of p r] by auto

lemma entry_ok_replacement_nonempty: "entry_ok (p, r) \<Longrightarrow> r \<noteq> []"
  using entry_ok_two [of p r] entry_ok_length [of p r] by auto

lemma entry_ok_nth0: "entry_ok (p, r) \<Longrightarrow> r ! 0 = hd p"
  using entry_ok_hd [of p r] entry_ok_replacement_nonempty [of p r] by (simp add: hd_conv_nth)

lemma scan_short: "length s < length p \<Longrightarrow> scanAcronym p r s = s"
  by (subst scanAcronym.simps) simp

lemma occ_length: "occursAtBoundary p s \<Longrightarrow> length p \<le> length s"
  by (metis occursAtBoundary_def length_take min.cobounded1 min_def)

lemma occ_append:
  "occursAtBoundary p s \<longleftrightarrow> (\<exists>u. s = p @ u \<and> (u = [] \<or> isUpperByte (hd u)))"
proof
  assume a: "occursAtBoundary p s"
  then have "s = p @ drop (length p) s"
    by (metis occursAtBoundary_def append_take_drop_id)
  with a show "\<exists>u. s = p @ u \<and> (u = [] \<or> isUpperByte (hd u))"
    unfolding occursAtBoundary_def by blast
next
  assume "\<exists>u. s = p @ u \<and> (u = [] \<or> isUpperByte (hd u))"
  then show "occursAtBoundary p s"
    by (auto simp: occursAtBoundary_def)
qed

lemma scan_occ:
  "p \<noteq> [] \<Longrightarrow> occursAtBoundary p s \<Longrightarrow>
     scanAcronym p r s = r @ scanAcronym p r (drop (length p) s)"
  using occ_length [of p s] by (subst scanAcronym.simps) simp

lemma scan_step:
  "p \<noteq> [] \<Longrightarrow> length p \<le> length (c # cs) \<Longrightarrow> \<not> occursAtBoundary p (c # cs) \<Longrightarrow>
     scanAcronym p r (c # cs) = c # scanAcronym p r cs"
  by (subst scanAcronym.simps) simp

lemma scan_cases [consumes 1, case_names short occ step]:
  assumes "p \<noteq> []"
    and "length s < length p \<Longrightarrow> P"
    and "occursAtBoundary p s \<Longrightarrow> length p \<le> length s \<Longrightarrow> P"
    and "\<And>c cs. s = c # cs \<Longrightarrow> length p \<le> length s \<Longrightarrow> \<not> occursAtBoundary p s \<Longrightarrow> P"
  shows P
proof (cases "length s < length p")
  case True
  then show ?thesis by (rule assms(2))
next
  case False
  then have l: "length p \<le> length s" by simp
  show ?thesis
  proof (cases "occursAtBoundary p s")
    case True
    then show ?thesis using l by (rule assms(3))
  next
    case False
    from l assms(1) obtain c cs where "s = c # cs" by (cases s) auto
    then show ?thesis using l False by (rule assms(4))
  qed
qed

lemma scan_length: "length r = length p \<Longrightarrow> length (scanAcronym p r s) = length s"
proof (induction "length s" arbitrary: s rule: less_induct)
  case less
  show ?case
  proof (cases "p = []")
    case True
    then show ?thesis by (subst scanAcronym.simps) simp
  next
    case False
    then show ?thesis
    proof (cases rule: scan_cases [of p s])
      case short
      then show ?thesis by (simp add: scan_short)
    next
      case occ
      have "length (drop (length p) s) < length s" using occ False by (cases p) auto
      from less.hyps [OF this less.prems] occ False less.prems show ?thesis
        by (simp add: scan_occ)
    next
      case (step c cs)
      have "length cs < length s" using step by simp
      from less.hyps [OF this less.prems] step False show ?thesis
        by (simp add: scan_step)
    qed
  qed
qed

lemma scan_changes:
  "entry_ok (p, r) \<Longrightarrow> k < length s \<Longrightarrow> scanAcronym p r s ! k \<noteq> s ! k \<Longrightarrow>
     \<exists>j<k. isUpperByte (s ! j)"
proof (induction "length s" arbitrary: s k rule: less_induct)
  case less
  have ne: "p \<noteq> []" using less.prems(1) by (rule entry_ok_nonempty)
  from ne show ?case
  proof (cases rule: scan_cases [of p s])
    case short
    with less.prems show ?thesis by (simp add: scan_short)
  next
    case occ
    have sc: "scanAcronym p r s = r @ scanAcronym p r (drop (length p) s)"
      using ne occ by (simp add: scan_occ)
    from occ obtain u where su: "s = p @ u" by (auto simp: occ_append)
    have s0: "s ! 0 = hd p"
      using ne by (simp add: su nth_append hd_conv_nth)
    have r0: "r ! 0 = hd p"
      using less.prems(1) by (rule entry_ok_nth0)
    have rne: "r \<noteq> []" using less.prems(1) by (rule entry_ok_replacement_nonempty)
    show ?thesis
    proof (cases k)
      case 0
      with less.prems(3) sc s0 r0 rne show ?thesis by (simp add: nth_append)
    next
      case (Suc k')
      have "isUpperByte (s ! 0)" using s0 entry_ok_upper [OF less.prems(1)] by simp
      with Suc show ?thesis by blast
    qed
  next
    case (step c cs)
    have sc: "scanAcronym p r s = c # scanAcronym p r cs"
      using ne step by (simp add: scan_step)
    show ?thesis
    proof (cases k)
      case 0
      with less.prems(3) sc step show ?thesis by simp
    next
      case (Suc k')
      have l: "length cs < length s" using step by simp
      from less.prems(2,3) Suc sc step
      have "k' < length cs" "scanAcronym p r cs ! k' \<noteq> cs ! k'" by simp_all
      from less.hyps [OF l less.prems(1) this] obtain j where "j < k'" "isUpperByte (cs ! j)"
        by blast
      then have "Suc j < k \<and> isUpperByte (s ! Suc j)" using Suc step by simp
      then show ?thesis by blast
    qed
  qed
qed

lemma scan_agrees:
  assumes ok: "entry_ok (p, r)"
    and low: "\<forall>j<n. j < length s \<longrightarrow> \<not> isUpperByte (scanAcronym p r s ! j)"
  shows "k \<le> n \<Longrightarrow> k < length s \<Longrightarrow> scanAcronym p r s ! k = s ! k"
proof (induction k rule: less_induct)
  case (less k)
  show ?case
  proof (rule ccontr)
    assume "scanAcronym p r s ! k \<noteq> s ! k"
    from scan_changes [OF ok less.prems(2) this] obtain j where j: "j < k" "isUpperByte (s ! j)"
      by blast
    then have "scanAcronym p r s ! j = s ! j" using less by simp
    moreover have "\<not> isUpperByte (scanAcronym p r s ! j)" using low j less.prems by simp
    ultimately show False using j by simp
  qed
qed

lemma pattern_ok_second:
  assumes "pattern_ok q" and "occursAtBoundary q w"
  shows "2 \<le> length w \<and> \<not> isUpperByte (w ! 1)"
proof -
  from assms(2) obtain u where w: "w = q @ u" by (auto simp: occ_append)
  from assms(1) have l: "2 \<le> length q" and t: "list_all (\<lambda>c. \<not> isUpperByte c) (tl q)"
    by (simp_all add: pattern_ok_def)
  from l obtain a b q' where q: "q = a # b # q'"
    by (cases q; cases "tl q") auto
  with t have "\<not> isUpperByte b" by simp
  with w q show ?thesis by simp
qed

lemma scan_hd:
  assumes "entry_ok (p, r)" and "s \<noteq> []"
  shows "scanAcronym p r s \<noteq> [] \<and> hd (scanAcronym p r s) = hd s"
proof -
  have len: "length (scanAcronym p r s) = length s"
    by (rule scan_length [OF entry_ok_length [OF assms(1)]])
  with assms(2) have ne: "scanAcronym p r s \<noteq> []" by auto
  have "scanAcronym p r s ! 0 = s ! 0"
  proof (rule ccontr)
    assume "scanAcronym p r s ! 0 \<noteq> s ! 0"
    from scan_changes [OF assms(1) _ this] assms(2) show False by simp
  qed
  with ne assms(2) show ?thesis by (simp add: hd_conv_nth)
qed

lemma scan_boundary:
  assumes "entry_ok (p, r)" and "u = [] \<or> isUpperByte (hd u)"
  shows "scanAcronym p r u = [] \<or> isUpperByte (hd (scanAcronym p r u))"
proof (cases "u = []")
  case True
  then show ?thesis by (simp add: scan_short entry_ok_nonempty [OF assms(1)])
next
  case False
  with assms scan_hd [OF assms(1) False] show ?thesis by simp
qed

text \<open>No occurrence of a pattern begins inside a replacement.\<close>

lemma no_occ_in_replacement:
  assumes ok: "entry_ok (p, r)" and q: "pattern_ok q"
    and t: "t = [] \<or> isUpperByte (hd t)" and i: "i < length r"
  shows "\<not> occursAtBoundary q (drop i r @ t)"
proof
  assume o: "occursAtBoundary q (drop i r @ t)"
  let ?w = "drop i r @ t"
  from pattern_ok_second [OF q o] have l: "2 \<le> length ?w" and low: "\<not> isUpperByte (?w ! 1)"
    by simp_all
  have up: "list_all isUpperByte (tl r)" by (rule entry_ok_tl_upper [OF ok])
  show False
  proof (cases "Suc i < length r")
    case True
    then have "1 < length (drop i r)" by simp
    then have "?w ! 1 = r ! Suc i" using True by (simp add: nth_append)
    also have "\<dots> = tl r ! i" using True by (simp add: nth_tl)
    finally have "isUpperByte (?w ! 1)"
      using up True by (simp add: list_all_length)
    with low show False by simp
  next
    case False
    with i have "length (drop i r) = 1" by simp
    then have w1: "?w ! 1 = t ! 0" and tl: "1 \<le> length t"
      using l by (simp_all add: nth_append)
    then have "t \<noteq> []" by auto
    with t have "isUpperByte (t ! 0)" by (simp add: hd_conv_nth)
    with low w1 show False by simp
  qed
qed

lemma occ_transfer:
  assumes ok: "entry_ok (p, r)" and q: "pattern_ok q"
    and o: "occursAtBoundary q (c # scanAcronym p r cs)"
  shows "occursAtBoundary q (c # cs)"
proof -
  let ?t = "scanAcronym p r cs"
  have len: "length ?t = length cs"
    by (rule scan_length [OF entry_ok_length [OF ok]])
  from o obtain u where cu: "c # ?t = q @ u" and bu: "u = [] \<or> isUpperByte (hd u)"
    by (auto simp: occ_append)
  from q have l: "2 \<le> length q" and lowq: "list_all (\<lambda>c. \<not> isUpperByte c) (tl q)"
    by (simp_all add: pattern_ok_def)
  from l cu obtain q' where qq: "q = c # q'"
    by (cases q) auto
  from l qq have q'ne: "q' \<noteq> []" by auto
  from cu qq have t: "?t = q' @ u" by simp
  let ?n = "length q'"
  have lowt: "\<forall>j<?n. j < length cs \<longrightarrow> \<not> isUpperByte (?t ! j)"
    using lowq qq by (simp add: t nth_append list_all_length)
  have agree: "k \<le> ?n \<Longrightarrow> k < length cs \<Longrightarrow> ?t ! k = cs ! k" for k
    by (rule scan_agrees [OF ok lowt])
  have nle: "?n \<le> length cs" using len t by simp
  have tk: "take ?n cs = q'"
  proof (rule nth_equalityI)
    show "length (take ?n cs) = length q'" using nle by simp
  next
    fix k assume "k < length (take ?n cs)"
    then have k: "k < ?n" "k < length cs" by simp_all
    then have "take ?n cs ! k = ?t ! k" using agree [of k] by simp
    also have "\<dots> = q' ! k" using k by (simp add: t nth_append)
    finally show "take ?n cs ! k = q' ! k" .
  qed
  let ?v = "drop ?n cs"
  have cs: "cs = q' @ ?v" using tk by (metis append_take_drop_id)
  have lv: "length ?v = length u" using len t nle by simp
  have bv: "?v = [] \<or> isUpperByte (hd ?v)"
  proof (cases "u = []")
    case True
    with lv show ?thesis by simp
  next
    case False
    with lv have n: "?n < length cs" by (cases u) auto
    then have vne: "?v \<noteq> []" by simp
    have "hd ?v = cs ! ?n" using n by (simp add: hd_drop_conv_nth)
    also have "\<dots> = ?t ! ?n" using agree [of ?n] n by simp
    also have "\<dots> = hd u" using False by (simp add: t nth_append hd_conv_nth)
    finally show ?thesis using bu False by simp
  qed
  have "c # cs = q @ ?v" using cs qq by simp
  with bv show ?thesis unfolding occ_append by blast
qed

lemma occ_after_scan:
  "entry_ok (p, r) \<Longrightarrow> pattern_ok q \<Longrightarrow> occursAtBoundary q (drop i (scanAcronym p r s)) \<Longrightarrow>
     occursAtBoundary q (drop i s) \<and> q \<noteq> p"
proof (induction "length s" arbitrary: s i rule: less_induct)
  case less
  note ok = less.prems(1) and q = less.prems(2) and o = less.prems(3)
  have ne: "p \<noteq> []" using ok by (rule entry_ok_nonempty)
  have lr: "length r = length p" using ok by (rule entry_ok_length)
  from ne show ?case
  proof (cases rule: scan_cases [of p s])
    case short
    then have sc: "scanAcronym p r s = s" by (simp add: scan_short)
    have "q \<noteq> p"
    proof
      assume "q = p"
      with o sc have "occursAtBoundary p (drop i s)" by simp
      from occ_length [OF this] short show False by simp
    qed
    with o sc show ?thesis by simp
  next
    case occ
    let ?u = "drop (length p) s"
    let ?t = "scanAcronym p r ?u"
    have sc: "scanAcronym p r s = r @ ?t" using ne occ by (simp add: scan_occ)
    from occ(1) have bu: "?u = [] \<or> isUpperByte (hd ?u)" by (simp add: occursAtBoundary_def)
    have bt: "?t = [] \<or> isUpperByte (hd ?t)" by (rule scan_boundary [OF ok bu])
    show ?thesis
    proof (cases "i < length r")
      case True
      then have "drop i (scanAcronym p r s) = drop i r @ ?t" by (simp add: sc)
      with o no_occ_in_replacement [OF ok q bt True] show ?thesis by simp
    next
      case False
      then have d: "drop i (scanAcronym p r s) = drop (i - length p) ?t"
        by (simp add: sc lr)
      have l: "length ?u < length s" using occ(2) ne by (cases p) auto
      from o d have "occursAtBoundary q (drop (i - length p) ?t)" by simp
      from less.hyps [OF l ok q this] False lr show ?thesis by simp
    qed
  next
    case (step c cs)
    have sc: "scanAcronym p r s = c # scanAcronym p r cs"
      using ne step by (simp add: scan_step)
    show ?thesis
    proof (cases i)
      case 0
      with o sc have "occursAtBoundary q (c # scanAcronym p r cs)" by simp
      from occ_transfer [OF ok q this] have "occursAtBoundary q s" using step by simp
      with step(3) 0 show ?thesis by auto
    next
      case (Suc i')
      have l: "length cs < length s" using step by simp
      from o sc Suc have "occursAtBoundary q (drop i' (scanAcronym p r cs))" by simp
      from less.hyps [OF l ok q this] Suc step show ?thesis by simp
    qed
  qed
qed

lemma no_occ_scan_self: "entry_ok (p, r) \<Longrightarrow> no_occ p (scanAcronym p r s)"
  unfolding no_occ_def using occ_after_scan [OF _ entry_ok_pattern] by blast

lemma no_occ_scan_other:
  "entry_ok (p, r) \<Longrightarrow> pattern_ok q \<Longrightarrow> no_occ q s \<Longrightarrow> no_occ q (scanAcronym p r s)"
  unfolding no_occ_def using occ_after_scan by blast

lemma no_occ_fixed: "q \<noteq> [] \<Longrightarrow> no_occ q s \<Longrightarrow> scanAcronym q r s = s"
proof (induction s)
  case Nil
  then show ?case by (simp add: scan_short)
next
  case (Cons c cs)
  from Cons.prems(2) have h: "\<not> occursAtBoundary q (c # cs)"
    unfolding no_occ_def by (metis drop0)
  from Cons.prems(2) have t: "no_occ q cs"
    unfolding no_occ_def by (metis drop_Suc_Cons)
  show ?case
  proof (cases "length (c # cs) < length q")
    case True
    then show ?thesis by (rule scan_short)
  next
    case False
    then have "length q \<le> length (c # cs)" by simp
    from scan_step [OF Cons.prems(1) this h] Cons.IH [OF Cons.prems(1) t] show ?thesis by simp
  qed
qed

lemma scanAll_Nil: "scanAll [] s = s"
  by (simp add: scanAll_def)

lemma scanAll_Cons: "scanAll ((p, r) # rest) s = scanAll rest (scanAcronym p r s)"
  by (simp add: scanAll_def)

lemma range_is_scanAll:
  "list_all entry_ok order \<Longrightarrow> handleAcronyms_range order s = Some (scanAll order s)"
proof (induction order arbitrary: s)
  case Nil
  show ?case by (simp add: scanAll_Nil)
next
  case (Cons e rest)
  obtain p r where e: "e = (p, r)" by (cases e)
  from Cons.prems e have ok: "entry_ok (p, r)" and rest: "list_all entry_ok rest" by simp_all
  from replaceAcronym_scan [OF entry_ok_nonempty [OF ok]] Cons.IH [OF rest]
  show ?case by (simp add: e scanAll_Cons)
qed

lemma scanAll_preserves:
  "list_all entry_ok order \<Longrightarrow> pattern_ok q \<Longrightarrow> no_occ q s \<Longrightarrow> no_occ q (scanAll order s)"
proof (induction order arbitrary: s)
  case Nil
  then show ?case by (simp add: scanAll_Nil)
next
  case (Cons e rest)
  obtain p r where e: "e = (p, r)" by (cases e)
  from Cons.prems e have ok: "entry_ok (p, r)" and rest: "list_all entry_ok rest" by simp_all
  from no_occ_scan_other [OF ok Cons.prems(2,3)] Cons.IH [OF rest Cons.prems(2)]
  show ?case by (simp add: e scanAll_Cons)
qed

lemma scanAll_cleans:
  "list_all entry_ok order \<Longrightarrow> (q, rq) \<in> set order \<Longrightarrow> no_occ q (scanAll order s)"
proof (induction order arbitrary: s)
  case Nil
  then show ?case by simp
next
  case (Cons e rest)
  obtain p r where e: "e = (p, r)" by (cases e)
  from Cons.prems e have ok: "entry_ok (p, r)" and rest: "list_all entry_ok rest" by simp_all
  show ?case
  proof (cases "(q, rq) = e")
    case True
    with e have "no_occ q (scanAcronym p r s)" using no_occ_scan_self [OF ok] by simp
    from scanAll_preserves [OF rest _ this] True e ok show ?thesis
      by (simp add: scanAll_Cons entry_ok_pattern)
  next
    case False
    with Cons.prems(2) have "(q, rq) \<in> set rest" by auto
    from Cons.IH [OF rest this] show ?thesis by (simp add: e scanAll_Cons)
  qed
qed

lemma scanAll_fixed:
  "list_all entry_ok order \<Longrightarrow> (\<forall>e\<in>set order. no_occ (fst e) t) \<Longrightarrow> scanAll order t = t"
proof (induction order)
  case Nil
  show ?case by (simp add: scanAll_Nil)
next
  case (Cons e rest)
  obtain p r where e: "e = (p, r)" by (cases e)
  from Cons.prems e have ok: "entry_ok (p, r)" and rest: "list_all entry_ok rest" by simp_all
  from Cons.prems(2) e have "no_occ p t" by simp
  from no_occ_fixed [OF entry_ok_nonempty [OF ok] this] Cons.IH [OF rest] Cons.prems(2)
  show ?case by (simp add: e scanAll_Cons)
qed

lemma scanAll_idem:
  assumes "list_all entry_ok order1" and "set order2 \<subseteq> set order1"
  shows "scanAll order2 (scanAll order1 s) = scanAll order1 s"
proof (rule scanAll_fixed)
  show "list_all entry_ok order2" using assms by (auto simp: list_all_iff)
next
  show "\<forall>e\<in>set order2. no_occ (fst e) (scanAll order1 s)"
  proof
    fix e assume "e \<in> set order2"
    then have "(fst e, snd e) \<in> set order1" using assms(2) by auto
    from scanAll_cleans [OF assms(1) this] show "no_occ (fst e) (scanAll order1 s)" .
  qed
qed

lemma occ_upper_hd:
  assumes "entry_ok (q, rq)" and "occursAtBoundary q w"
  shows "w \<noteq> [] \<and> isUpperByte (hd w)"
proof -
  from assms(2) obtain u where "w = q @ u" by (auto simp: occ_append)
  with entry_ok_nonempty [OF assms(1)] entry_ok_upper [OF assms(1)] show ?thesis by simp
qed

lemma scan_skip:
  assumes "p \<noteq> []"
  shows "(\<forall>i<length x. \<not> occursAtBoundary p (drop i (x @ u))) \<Longrightarrow>
     scanAcronym p r (x @ u) = x @ scanAcronym p r u"
proof (induction x)
  case Nil
  show ?case by simp
next
  case (Cons c x)
  from Cons.prems have h: "\<not> occursAtBoundary p (c # x @ u)" by auto
  from Cons.prems have t: "\<forall>i<length x. \<not> occursAtBoundary p (drop i (x @ u))" by auto
  show ?case
  proof (cases "length (c # x @ u) < length p")
    case True
    then have "length u < length p" by simp
    with True show ?thesis by (simp add: scan_short)
  next
    case False
    then have "length p \<le> length (c # (x @ u))" by simp
    from scan_step [OF assms this] h Cons.IH [OF t] show ?thesis by simp
  qed
qed

lemma occ_both:
  assumes "occursAtBoundary p s" and "occursAtBoundary q s"
  shows "HasPrefix q p \<or> HasPrefix p q"
proof -
  from assms(1) obtain u where "s = p @ u" by (auto simp: occ_append)
  moreover from assms(2) obtain v where "s = q @ v" by (auto simp: occ_append)
  ultimately have "p @ u = q @ v" by simp
  then obtain w where "p = q @ w \<or> q = p @ w"
    by (auto simp: append_eq_append_conv2)
  then show ?thesis by (auto simp: HasPrefix_def)
qed

lemma scan_commute:
  assumes p: "entry_ok (p, rp)" and q: "entry_ok (q, rq)"
    and np: "\<not> HasPrefix q p" "\<not> HasPrefix p q"
  shows "scanAcronym p rp (scanAcronym q rq s) = scanAcronym q rq (scanAcronym p rp s)"
proof (induction "length s" arbitrary: s rule: less_induct)
  case less
  have pne: "p \<noteq> []" and qne: "q \<noteq> []"
    using p q by (simp_all add: entry_ok_nonempty)
  have lp: "length (scanAcronym p rp t) = length t" for t
    by (rule scan_length [OF entry_ok_length [OF p]])
  have lq: "length (scanAcronym q rq t) = length t" for t
    by (rule scan_length [OF entry_ok_length [OF q]])
  have one_side:
    "scanAcronym p' rp' (scanAcronym q' rq' s) = scanAcronym q' rq' (scanAcronym p' rp' s)"
    if p': "entry_ok (p', rp')" and q': "entry_ok (q', rq')"
      and occ: "occursAtBoundary p' s" and nocc: "\<not> occursAtBoundary q' s"
      and IH: "\<And>t. length t < length s \<Longrightarrow>
         scanAcronym p' rp' (scanAcronym q' rq' t) = scanAcronym q' rq' (scanAcronym p' rp' t)"
    for p' rp' q' rq'
  proof -
    have p'ne: "p' \<noteq> []" and q'ne: "q' \<noteq> []"
      using p' q' by (simp_all add: entry_ok_nonempty)
    from occ obtain u where s: "s = p' @ u" and bu: "u = [] \<or> isUpperByte (hd u)"
      by (auto simp: occ_append)
    have du: "drop (length p') s = u" by (simp add: s)
    have lu: "length u < length s" using p'ne by (simp add: s)
    have sp: "scanAcronym p' rp' s = rp' @ scanAcronym p' rp' u"
      using scan_occ [OF p'ne occ] du by simp
    have skip1: "\<forall>i<length p'. \<not> occursAtBoundary q' (drop i (p' @ u))"
    proof (intro allI impI)
      fix i assume i: "i < length p'"
      show "\<not> occursAtBoundary q' (drop i (p' @ u))"
      proof (cases i)
        case 0
        with nocc s show ?thesis by simp
      next
        case (Suc j)
        have "hd (drop i (p' @ u)) = p' ! i" using i by (simp add: hd_drop_conv_nth nth_append)
        also have "\<dots> = tl p' ! j" using i Suc by (simp add: nth_tl)
        finally have "\<not> isUpperByte (hd (drop i (p' @ u)))"
          using entry_ok_pattern [OF p'] i Suc
          by (simp add: pattern_ok_def list_all_length)
        with occ_upper_hd [OF q'] show ?thesis by blast
      qed
    qed
    have sq: "scanAcronym q' rq' s = p' @ scanAcronym q' rq' u"
      unfolding s by (rule scan_skip [OF q'ne skip1])
    have bq: "scanAcronym q' rq' u = [] \<or> isUpperByte (hd (scanAcronym q' rq' u))"
      by (rule scan_boundary [OF q' bu])
    have bp: "scanAcronym p' rp' u = [] \<or> isUpperByte (hd (scanAcronym p' rp' u))"
      by (rule scan_boundary [OF p' bu])
    have "occursAtBoundary p' (p' @ scanAcronym q' rq' u)"
      using bq unfolding occ_append by blast
    from scan_occ [OF p'ne this]
    have lhs: "scanAcronym p' rp' (scanAcronym q' rq' s)
        = rp' @ scanAcronym p' rp' (scanAcronym q' rq' u)"
      by (simp add: sq)
    have skip2: "\<forall>i<length rp'. \<not> occursAtBoundary q' (drop i (rp' @ scanAcronym p' rp' u))"
      using no_occ_in_replacement [OF p' entry_ok_pattern [OF q'] bp] by simp
    have rhs: "scanAcronym q' rq' (scanAcronym p' rp' s)
        = rp' @ scanAcronym q' rq' (scanAcronym p' rp' u)"
      unfolding sp by (rule scan_skip [OF q'ne skip2])
    from lhs rhs IH [OF lu] show ?thesis by simp
  qed
  show ?case
  proof (cases "length s < length p \<or> length s < length q")
    case True
    then show ?thesis
    proof
      assume "length s < length p"
      then show ?thesis by (simp add: scan_short lq)
    next
      assume "length s < length q"
      then show ?thesis by (simp add: scan_short lp)
    qed
  next
    case False
    then have lens: "length p \<le> length s" "length q \<le> length s" by simp_all
    show ?thesis
    proof (cases "occursAtBoundary p s")
      case op: True
      with occ_both [of p s q] np have "\<not> occursAtBoundary q s" by blast
      from one_side [OF p q op this less.hyps] show ?thesis by simp
    next
      case nop: False
      show ?thesis
      proof (cases "occursAtBoundary q s")
        case True
        from one_side [OF q p True nop] less.hyps show ?thesis by simp
      next
        case noq: False
        from lens pne obtain c cs where s: "s = c # cs" by (cases s) auto
        have l: "length cs < length s" by (simp add: s)
        have lens': "length p \<le> length (c # cs)" "length q \<le> length (c # cs)"
          using lens by (simp_all add: s)
        have nop': "\<not> occursAtBoundary p (c # cs)" and noq': "\<not> occursAtBoundary q (c # cs)"
          using nop noq by (simp_all add: s)
        have sp: "scanAcronym p rp (c # cs) = c # scanAcronym p rp cs"
          by (rule scan_step [OF pne lens'(1) nop'])
        have sq: "scanAcronym q rq (c # cs) = c # scanAcronym q rq cs"
          by (rule scan_step [OF qne lens'(2) noq'])
        have np1: "\<not> occursAtBoundary p (c # scanAcronym q rq cs)"
          using occ_transfer [OF q entry_ok_pattern [OF p]] nop' by blast
        have lp1: "length p \<le> length (c # scanAcronym q rq cs)"
          using lens' by (simp add: lq)
        have lhs: "scanAcronym p rp (scanAcronym q rq (c # cs))
            = c # scanAcronym p rp (scanAcronym q rq cs)"
          unfolding sq by (rule scan_step [OF pne lp1 np1])
        have nq1: "\<not> occursAtBoundary q (c # scanAcronym p rp cs)"
          using occ_transfer [OF p entry_ok_pattern [OF q]] noq' by blast
        have lq1: "length q \<le> length (c # scanAcronym p rp cs)"
          using lens' by (simp add: lp)
        have rhs: "scanAcronym q rq (scanAcronym p rp (c # cs))
            = c # scanAcronym q rq (scanAcronym p rp cs)"
          unfolding sp by (rule scan_step [OF qne lq1 nq1])
        from lhs rhs less.hyps [OF l] show ?thesis by (simp add: s)
      qed
    qed
  qed
qed

lemma acronyms_prefix_free:
  "list_all (\<lambda>x. list_all (\<lambda>y. x = y \<or> (\<not> HasPrefix (fst y) (fst x) \<and> \<not> HasPrefix (fst x) (fst y)))
      acronyms) acronyms"
  by code_simp

lemma acronyms_commute:
  assumes "x \<in> set acronyms" and "y \<in> set acronyms"
  shows "(\<lambda>(p, r). scanAcronym p r) x \<circ> (\<lambda>(p, r). scanAcronym p r) y
       = (\<lambda>(p, r). scanAcronym p r) y \<circ> (\<lambda>(p, r). scanAcronym p r) x"
proof (cases "x = y")
  case True
  then show ?thesis by simp
next
  case False
  obtain p rp where x: "x = (p, rp)" by (cases x)
  obtain q rq where y: "y = (q, rq)" by (cases y)
  from assms acronyms_ok have okx: "entry_ok (p, rp)" and oky: "entry_ok (q, rq)"
    by (auto simp: list_all_iff x y)
  have "\<forall>a\<in>set acronyms. \<forall>b\<in>set acronyms.
          a = b \<or> (\<not> HasPrefix (fst b) (fst a) \<and> \<not> HasPrefix (fst a) (fst b))"
    using acronyms_prefix_free by (simp add: list_all_iff)
  with assms have "x = y \<or> (\<not> HasPrefix (fst y) (fst x) \<and> \<not> HasPrefix (fst x) (fst y))"
    by blast
  with False have "\<not> HasPrefix (fst y) (fst x) \<and> \<not> HasPrefix (fst x) (fst y)"
    by blast
  then have "\<not> HasPrefix q p \<and> \<not> HasPrefix p q"
    by (simp add: x y)
  then have "scanAcronym p rp (scanAcronym q rq s) = scanAcronym q rq (scanAcronym p rp s)" for s
    using scan_commute [OF okx oky] by blast
  then show ?thesis by (auto simp: x y fun_eq_iff)
qed

lemma scanAll_order:
  assumes "mset order = mset acronyms"
  shows "scanAll order s = scanAll acronyms s"
proof -
  have "fold (\<lambda>(p, r). scanAcronym p r) acronyms = fold (\<lambda>(p, r). scanAcronym p r) order"
    by (rule fold_multiset_equiv) (use assms acronyms_commute in auto)
  then show ?thesis by (simp add: scanAll_def)
qed

lemma handleAcronyms_scanAll: "handleAcronyms s = scanAll acronyms s"
  by (simp add: handleAcronyms_def range_is_scanAll [OF acronyms_ok])

lemma handleAcronyms_range_total:
  assumes "set order \<subseteq> set acronyms"
  shows "\<exists>r. handleAcronyms_range order s = Some r"
proof -
  from assms acronyms_ok have "list_all entry_ok order" by (auto simp: list_all_iff)
  from range_is_scanAll [OF this] show ?thesis by blast
qed

lemma handleAcronyms_range_order:
  assumes "mset order = mset acronyms"
  shows "handleAcronyms_range order s = Some (handleAcronyms s)"
proof -
  from assms have "set order = set acronyms" by (rule mset_eq_setD)
  with acronyms_ok have "list_all entry_ok order" by (auto simp: list_all_iff)
  from range_is_scanAll [OF this] scanAll_order [OF assms] show ?thesis
    by (simp add: handleAcronyms_scanAll)
qed

text \<open>
  Claim C8. The field name of \<open>user_id\<close> is \<open>UserID\<close> and that of \<open>http_status\<close> is
  \<open>HTTPStatus\<close>, and the acronym correction applied to its own result returns that result,
  for every string. Go does not fix the order in which \<open>handleAcronyms\<close> ranges over its
  table: the statement holds for every order of the entries, also when the second
  application uses another order than the first, and in every case the loops end.
\<close>

theorem acronym_correction_idempotent:
  "(mset order1 = mset acronyms \<and> mset order2 = mset acronyms \<longrightarrow>
      ToGoFieldName_range u order1 ''user_id'' = Some ''UserID''
      \<and> ToGoFieldName_range u order1 ''http_status'' = Some ''HTTPStatus''
      \<and> (\<exists>t. handleAcronyms_range order1 s = Some t \<and> handleAcronyms_range order2 t = Some t))
   \<and> ToGoFieldName u ''user_id'' = ''UserID''
   \<and> ToGoFieldName u ''http_status'' = ''HTTPStatus''
   \<and> handleAcronyms (handleAcronyms s) = handleAcronyms s"
proof -
  have f: "ToGoFieldName u ''user_id'' = ''UserID''" by code_simp
  have h: "ToGoFieldName u ''http_status'' = ''HTTPStatus''" by code_simp
  have idem: "handleAcronyms (handleAcronyms s) = handleAcronyms s"
    unfolding handleAcronyms_scanAll by (rule scanAll_idem [OF acronyms_ok subset_refl])
  have "ToGoFieldName_range u order1 ''user_id'' = Some ''UserID''
      \<and> ToGoFieldName_range u order1 ''http_status'' = Some ''HTTPStatus''
      \<and> (\<exists>t. handleAcronyms_range order1 s = Some t \<and> handleAcronyms_range order2 t = Some t)"
    if o: "mset order1 = mset acronyms \<and> mset order2 = mset acronyms"
  proof -
    from o have o1: "mset order1 = mset acronyms" and o2: "mset order2 = mset acronyms"
      by simp_all
    have r1: "handleAcronyms_range order1 t = Some (handleAcronyms t)" for t
      by (rule handleAcronyms_range_order [OF o1])
    have r2: "handleAcronyms_range order2 t = Some (handleAcronyms t)" for t
      by (rule handleAcronyms_range_order [OF o2])
    from r1 r2 idem f h show ?thesis
      by (simp add: ToGoFieldName_range_def ToGoFieldName_def)
  qed
  with f h idem show ?thesis by blast
qed

theorem acronym_correction_idempotent_witness:
  "mset (rev acronyms) = mset acronyms
   \<and> ToGoFieldName_range bytewiseUnicode (rev acronyms) ''user_id'' = Some ''UserID''
   \<and> handleAcronyms_range (rev acronyms) ''ApiUrl'' = Some ''APIURL''
   \<and> handleAcronyms_range acronyms ''APIURL'' = Some ''APIURL''"
proof -
  have m: "mset (rev acronyms) = mset acronyms" by simp
  have e: "handleAcronyms_range (rev acronyms) ''ApiUrl'' = Some ''APIURL''" by code_simp
  from acronym_correction_idempotent [of "rev acronyms" acronyms bytewiseUnicode "''ApiUrl''"] m
  have 1: "ToGoFieldName_range bytewiseUnicode (rev acronyms) ''user_id'' = Some ''UserID''"
    and 2: "\<exists>t. handleAcronyms_range (rev acronyms) ''ApiUrl'' = Some t
             \<and> handleAcronyms_range acronyms t = Some t"
    by simp_all
  from 2 e have "handleAcronyms_range acronyms ''APIURL'' = Some ''APIURL''" by auto
  with m 1 e show ?thesis by blast
qed

end
